theory Spec2Isabelle
  imports Complex_Main
begin

section \<open>Identifiers, time and numbers\<close>

text \<open>
  The parking service of \<^verbatim>\<open>src/main.py\<close> keeps three collections of documents in a
  document store and serves five handlers on them. Every document has a store-assigned
  identifier of the store's native type (a BSON ObjectId, twelve bytes); the handlers
  receive and return identifiers as strings and convert with \<^verbatim>\<open>ObjectId(s)\<close> and
  \<^verbatim>\<open>str(oid)\<close>.

  An ObjectId is modelled by the natural number its twelve bytes denote. The constructor
  \<^verbatim>\<open>ObjectId(s)\<close> of the bson library accepts exactly the strings of 24 hexadecimal
  digits (either case) and raises \<^verbatim>\<open>InvalidId\<close> on every other string: the result
  \<open>None\<close> stands for the exception.
\<close>

type_synonym oid = nat

definition is_hex :: "char \<Rightarrow> bool" where
  "is_hex c = (c \<in> set ''0123456789abcdefABCDEF'')"

definition hex_val :: "char \<Rightarrow> nat" where
  "hex_val c =
     (if c \<in> set ''0123456789'' then of_char c - 48
      else if c \<in> set ''abcdef'' then of_char c - 87
      else of_char c - 55)"

definition ObjectId :: "string \<Rightarrow> oid option" where
  "ObjectId s =
     (if length s = 24 \<and> list_all is_hex s
      then Some (foldl (\<lambda>a c. 16 * a + hex_val c) 0 s)
      else None)"

definition hex_digit :: "nat \<Rightarrow> char" where
  "hex_digit d = ''0123456789abcdef'' ! (d mod 16)"

text \<open>\<^verbatim>\<open>str(oid)\<close>: the 24 lower-case hexadecimal digits, most significant first.\<close>

fun hex_digits :: "nat \<Rightarrow> nat \<Rightarrow> string" where
  "hex_digits 0 n = []"
| "hex_digits (Suc k) n = hex_digits k (n div 16) @ [hex_digit n]"

definition str_oid :: "oid \<Rightarrow> string" where
  "str_oid n = hex_digits 24 n"

text \<open>\<^verbatim>\<open>str(i)\<close> of a non-negative Python integer: its decimal digits.\<close>

fun str_nat :: "nat \<Rightarrow> string" where
  "str_nat n =
     (if n < 10 then [hex_digit n] else str_nat (n div 10) @ [hex_digit (n mod 10)])"

declare str_nat.simps [simp del]

text \<open>
  A \<^verbatim>\<open>datetime\<close> is a number of microseconds since the epoch, in UTC. Python's floats
  are idealised as real numbers: the distance, the score, the duration and the amount due
  are computed in exact arithmetic, so rounding error, infinities and NaN are outside the
  model.
\<close>

type_synonym datetime = int

text \<open>\<^verbatim>\<open>(end - start).total_seconds()\<close>\<close>

definition total_seconds :: "datetime \<Rightarrow> datetime \<Rightarrow> real" where
  "total_seconds end start = of_int (end - start) / 1000000"

text \<open>
  \<^verbatim>\<open>round(x, 2)\<close>: the nearest multiple of one hundredth; Python rounds an exact tie
  to the even neighbour.
\<close>

definition round2 :: "real \<Rightarrow> real" where
  "round2 x =
     (let y = x * 100; f = \<lfloor>y\<rfloor>; d = y - of_int f
      in of_int (if d < 1 / 2 then f
                 else if 1 / 2 < d then f + 1
                 else if even f then f else f + 1) / 100)"

section \<open>Schemas\<close>

text \<open>
  The three pydantic models of \<^verbatim>\<open>src/schemas.py\<close>. A field shared by two models carries
  the model's name as a prefix where the names would clash. The vehicle category is kept as
  the string the store holds, because the recommendation filter compares it with a string
  of the request; the booking status is a closed enumeration.
\<close>

record ParkingLot =
  name :: string
  latitude :: real
  longitude :: real
  address :: "string option"
  price_per_hour :: real
  total_spots :: int

record ParkingSpot =
  lot_id :: string
  spot_number :: string
  vehicle_type :: string
  is_occupied :: bool

datatype booking_status = Active | Completed | Cancelled

record Booking =
  booking_lot_id :: string
  booking_spot_id :: string
  vehicle_plate :: string
  user_name :: "string option"
  start_time :: "datetime option"
  end_time :: "datetime option"
  status :: booking_status

datatype error = ValidationError | ValueError | HTTPException nat string

text \<open>
  Constructing a model validates its fields and raises \<^verbatim>\<open>ValidationError\<close> when a
  constraint fails: \<open>ge\<close>/\<open>le\<close> bounds on a lot, the \<^verbatim>\<open>Literal\<close> of a spot's category.
\<close>

definition vehicle_types :: "string list" where
  "vehicle_types = [''car'', ''motorcycle'', ''ev'', ''accessible'']"

definition mk_ParkingLot ::
  "string \<Rightarrow> real \<Rightarrow> real \<Rightarrow> string option \<Rightarrow> real \<Rightarrow> int \<Rightarrow> error + ParkingLot" where
  "mk_ParkingLot n lat lon a p t =
     (if - 90 \<le> lat \<and> lat \<le> 90 \<and> - 180 \<le> lon \<and> lon \<le> 180 \<and> 0 \<le> p \<and> 1 \<le> t
      then Inr \<lparr>name = n, latitude = lat, longitude = lon, address = a,
                price_per_hour = p, total_spots = t\<rparr>
      else Inl ValidationError)"

definition mk_ParkingSpot :: "string \<Rightarrow> string \<Rightarrow> string \<Rightarrow> bool \<Rightarrow> error + ParkingSpot" where
  "mk_ParkingSpot l n v occ =
     (if v \<in> set vehicle_types
      then Inr \<lparr>lot_id = l, spot_number = n, vehicle_type = v, is_occupied = occ\<rparr>
      else Inl ValidationError)"

section \<open>The store\<close>

text \<open>
  A collection is the list of its documents in insertion order, which is the order in
  which \<^verbatim>\<open>find()\<close> enumerates them; a document is its identifier and its fields.
\<close>

type_synonym 'a document = "oid \<times> 'a"

record store =
  parkinglot :: "ParkingLot document list"
  parkingspot :: "ParkingSpot document list"
  booking :: "Booking document list"
  next_oid :: oid

definition empty_store :: store where
  "empty_store = \<lparr>parkinglot = [], parkingspot = [], booking = [], next_oid = 0\<rparr>"

text \<open>\<^verbatim>\<open>find_one({"_id": k})\<close>: the first document with that identifier, if any.\<close>

definition find_one :: "'a document list \<Rightarrow> oid \<Rightarrow> 'a document option" where
  "find_one docs k = find (\<lambda>d. fst d = k) docs"

text \<open>
  \<^verbatim>\<open>update_one({"_id": k}, {"$set": ...})\<close>: the first document with that identifier
  has its fields changed; nothing happens when there is none.
\<close>

fun update_one :: "'a document list \<Rightarrow> oid \<Rightarrow> ('a \<Rightarrow> 'a) \<Rightarrow> 'a document list" where
  "update_one [] k f = []"
| "update_one (d # ds) k f =
     (if fst d = k then (fst d, f (snd d)) # ds else d # update_one ds k f)"

text \<open>
  Modelled from the spec: \<^verbatim>\<open>create_document\<close> of the module \<^verbatim>\<open>database\<close>, which is
  not among the sources, on the collection \<^verbatim>\<open>parkinglot\<close>. The spec's store adapter has
  \<^verbatim>\<open>insert(collection, record) -> id\<close> with store-assigned identifiers returned as
  strings. The store assigns the next value of a counter, so an identifier is never
  assigned twice.
\<close>

definition create_parkinglot :: "store \<Rightarrow> ParkingLot \<Rightarrow> string \<times> store" where
  "create_parkinglot st l =
     (str_oid (next_oid st),
      st\<lparr>parkinglot := parkinglot st @ [(next_oid st, l)], next_oid := Suc (next_oid st)\<rparr>)"

text \<open>
  Modelled from the spec: \<^verbatim>\<open>create_document\<close> on the collection \<^verbatim>\<open>parkingspot\<close>,
  as above.
\<close>

definition create_parkingspot :: "store \<Rightarrow> ParkingSpot \<Rightarrow> string \<times> store" where
  "create_parkingspot st s =
     (str_oid (next_oid st),
      st\<lparr>parkingspot := parkingspot st @ [(next_oid st, s)], next_oid := Suc (next_oid st)\<rparr>)"

text \<open>
  Modelled from the spec: \<^verbatim>\<open>create_document\<close> on the collection \<^verbatim>\<open>booking\<close>, as
  above.
\<close>

definition create_booking :: "store \<Rightarrow> Booking \<Rightarrow> string \<times> store" where
  "create_booking st b =
     (str_oid (next_oid st),
      st\<lparr>booking := booking st @ [(next_oid st, b)], next_oid := Suc (next_oid st)\<rparr>)"

text \<open>
  The deployment: whether the module global \<^verbatim>\<open>db\<close> is a database handle or
  \<^verbatim>\<open>None\<close>, and whether the import of \<^verbatim>\<open>ObjectId\<close> succeeded.
\<close>

record config =
  db_configured :: bool
  objectid_available :: bool

section \<open>Seeding\<close>

record SeedResponse =
  seed_status :: string
  seeded :: bool
  seed_lot_id :: "string option"

text \<open>The category of the \<open>i\<close>-th demo spot.\<close>

definition seed_vtype :: "nat \<Rightarrow> string" where
  "seed_vtype i =
     (let vtype = ''car'';
          vtype = (if i \<in> {3, 7} then ''ev'' else vtype);
          vtype = (if i \<in> {5} then ''accessible'' else vtype)
      in vtype)"

text \<open>
  The loop over \<^verbatim>\<open>range(1, 13)\<close>. A validation error would leave the handler at that
  iteration with the documents inserted so far.
\<close>

fun seed_spots :: "string \<Rightarrow> nat list \<Rightarrow> store \<Rightarrow> error option \<times> store" where
  "seed_spots l [] st = (None, st)"
| "seed_spots l (i # is) st =
     (case mk_ParkingSpot l (str_nat i) (seed_vtype i) False of
        Inl e \<Rightarrow> (Some e, st)
      | Inr s \<Rightarrow> seed_spots l is (snd (create_parkingspot st s)))"

definition seed_demo_data :: "config \<Rightarrow> store \<Rightarrow> (error + SeedResponse) \<times> store" where
  "seed_demo_data cfg st =
     (if \<not> db_configured cfg then (Inl (HTTPException 500 ''Database not configured''), st)
      else if parkinglot st \<noteq> []
      then (Inr \<lparr>seed_status = ''ok'', seeded = False, seed_lot_id = None\<rparr>, st)
      else
        (case mk_ParkingLot ''Downtown Central'' (37.7749) (- 122.4194)
                (Some ''123 Market St, San Francisco, CA'') 5 12 of
           Inl e \<Rightarrow> (Inl e, st)
         | Inr l \<Rightarrow>
             (let (l_id, st1) = create_parkinglot st l
              in case seed_spots l_id [1..<13] st1 of
                   (Some e, st2) \<Rightarrow> (Inl e, st2)
                 | (None, st2) \<Rightarrow>
                     (Inr \<lparr>seed_status = ''ok'', seeded = True, seed_lot_id = Some l_id\<rparr>,
                      st2))))"

section \<open>Recommendation\<close>

definition radians :: "real \<Rightarrow> real" where
  "radians x = x * pi / 180"

text \<open>\<^verbatim>\<open>math.atan2(y, x)\<close>: the angle of the point \<open>(x, y)\<close>, in \<open>(-\<pi>, \<pi>]\<close>.\<close>

definition atan2 :: "real \<Rightarrow> real \<Rightarrow> real" where
  "atan2 y x =
     (if 0 < x then arctan (y / x)
      else if x < 0 then (if 0 \<le> y then arctan (y / x) + pi else arctan (y / x) - pi)
      else if 0 < y then pi / 2
      else if y < 0 then - (pi / 2)
      else 0)"

text \<open>
  The great-circle distance in kilometres. \<^verbatim>\<open>math.sqrt\<close> raises \<^verbatim>\<open>ValueError\<close> on a
  negative argument.
\<close>

definition haversine :: "real \<Rightarrow> real \<Rightarrow> real \<Rightarrow> real \<Rightarrow> error + real" where
  "haversine lat1 lon1 lat2 lon2 =
     (let R = 6371;
          dlat = radians (lat2 - lat1);
          dlon = radians (lon2 - lon1);
          a = (sin (dlat / 2))\<^sup>2 + cos (radians lat1) * cos (radians lat2) * (sin (dlon / 2))\<^sup>2
      in if a < 0 \<or> 1 - a < 0 then Inl ValueError
         else Inr (R * (2 * atan2 (sqrt a) (sqrt (1 - a)))))"

record RecommendationRequest =
  lat :: real
  lng :: real
  req_vehicle_type :: "string option"

record RecommendationResponse =
  resp_lot_id :: string
  lot_name :: string
  spot_id :: "string option"
  resp_spot_number :: "string option"
  reason :: string

text \<open>
  The spots the loop considers for one lot: the unoccupied spots whose \<open>lot_id\<close> is the
  lot's identifier as a string, restricted to the requested category when the request's
  \<open>vehicle_type\<close> is truthy (neither \<^verbatim>\<open>None\<close> nor the empty string).
\<close>

definition truthy :: "string option \<Rightarrow> bool" where
  "truthy v = (case v of None \<Rightarrow> False | Some s \<Rightarrow> s \<noteq> [])"

definition lot_spots ::
  "RecommendationRequest \<Rightarrow> store \<Rightarrow> ParkingLot document \<Rightarrow> ParkingSpot document list" where
  "lot_spots req st lot =
     (let l_id = str_oid (fst lot);
          spots = filter (\<lambda>s. lot_id (snd s) = l_id \<and> is_occupied (snd s) = False)
                    (parkingspot st)
      in if truthy (req_vehicle_type req)
         then filter (\<lambda>s. Some (vehicle_type (snd s)) = req_vehicle_type req) spots
         else spots)"

text \<open>
  The loop's variables \<open>best\<close>, \<open>best_score\<close> and \<open>chosen_spot\<close>. The initial
  \<open>best_score\<close>, \<^verbatim>\<open>float("inf")\<close>, is \<open>None\<close>: every score is below it.
\<close>

type_synonym best_state =
  "ParkingLot document option \<times> real option \<times> ParkingSpot document option"

definition score_less :: "real \<Rightarrow> real option \<Rightarrow> bool" where
  "score_less s b = (case b of None \<Rightarrow> True | Some t \<Rightarrow> s < t)"

fun recommend_loop ::
  "RecommendationRequest \<Rightarrow> store \<Rightarrow> ParkingLot document list \<Rightarrow> best_state
     \<Rightarrow> error + best_state" where
  "recommend_loop req st [] acc = Inr acc"
| "recommend_loop req st (lot # lots) acc =
     (case lot_spots req st lot of
        [] \<Rightarrow> recommend_loop req st lots acc
      | s0 # rest \<Rightarrow>
          (case haversine (lat req) (lng req) (latitude (snd lot)) (longitude (snd lot)) of
             Inl e \<Rightarrow> Inl e
           | Inr dist_km \<Rightarrow>
               (let score = dist_km - 0.05 * real (length (s0 # rest))
                in if score_less score (fst (snd acc))
                   then recommend_loop req st lots (Some lot, Some score, Some s0)
                   else recommend_loop req st lots acc)))"

definition recommend_parking ::
  "config \<Rightarrow> RecommendationRequest \<Rightarrow> store \<Rightarrow> error + RecommendationResponse" where
  "recommend_parking cfg req st =
     (if \<not> db_configured cfg then Inl (HTTPException 500 ''Database not configured'')
      else if parkinglot st = []
      then Inl (HTTPException 404 ''No parking lots available. Seed data first.'')
      else
        (case recommend_loop req st (parkinglot st) (None, None, None) of
           Inl e \<Rightarrow> Inl e
         | Inr (None, best_score, chosen_spot) \<Rightarrow>
             Inl (HTTPException 404 ''No suitable spots found'')
         | Inr (Some best, best_score, chosen_spot) \<Rightarrow>
             Inr \<lparr>resp_lot_id = str_oid (fst best),
                  lot_name = name (snd best),
                  spot_id = map_option (\<lambda>s. str_oid (fst s)) chosen_spot,
                  resp_spot_number = map_option (\<lambda>s. spot_number (snd s)) chosen_spot,
                  reason = ''Closest lot with available matching spots''\<rparr>))"

section \<open>Bookings\<close>

record StartBookingRequest =
  req_lot_id :: string
  req_spot_id :: string
  req_vehicle_plate :: string
  req_user_name :: "string option"

record BookingResponse =
  booking_id :: string
  resp_status :: string

text \<open>
  \<open>now\<close> is the reading of the clock, \<^verbatim>\<open>datetime.now(timezone.utc)\<close>. The lot is
  looked up and the result is dropped; only a malformed identifier fails.
\<close>

definition start_booking ::
  "config \<Rightarrow> datetime \<Rightarrow> StartBookingRequest \<Rightarrow> store \<Rightarrow> (error + BookingResponse) \<times> store" where
  "start_booking cfg now req st =
     (if \<not> db_configured cfg then (Inl (HTTPException 500 ''Database not configured''), st)
      else if \<not> objectid_available cfg
      then (Inl (HTTPException 500 ''ObjectId not available''), st)
      else
        (case ObjectId (req_lot_id req) of
           None \<Rightarrow> (Inl (HTTPException 400 ''Invalid lot id''), st)
         | Some lk \<Rightarrow>
             (let ignored = find_one (parkinglot st) lk
              in case ObjectId (req_spot_id req) of
                   None \<Rightarrow> (Inl (HTTPException 400 ''Invalid spot id''), st)
                 | Some sk \<Rightarrow>
                     (case find_one (parkingspot st) sk of
                        None \<Rightarrow> (Inl (HTTPException 404 ''Spot not found''), st)
                      | Some spot \<Rightarrow>
                          if is_occupied (snd spot)
                          then (Inl (HTTPException 409 ''Spot already occupied''), st)
                          else
                            (let st1 = st\<lparr>parkingspot :=
                                        update_one (parkingspot st) (fst spot)
                                          (\<lambda>s. s\<lparr>is_occupied := True\<rparr>)\<rparr>;
                                 (b_id, st2) = create_booking st1
                                    \<lparr>booking_lot_id = req_lot_id req,
                                     booking_spot_id = req_spot_id req,
                                     vehicle_plate = req_vehicle_plate req,
                                     user_name = req_user_name req,
                                     start_time = Some now,
                                     end_time = None,
                                     status = Active\<rparr>
                             in (Inr \<lparr>booking_id = b_id, resp_status = ''active''\<rparr>, st2))))))"

record EndBookingRequest =
  req_booking_id :: string

record EndBookingResult =
  duration_minutes :: real
  amount_due :: real
  currency :: string

text \<open>
  The price of a booking's lot: the lot is looked up only when the booking's \<open>lot_id\<close> is
  truthy, an identifier that does not parse leaves no lot, and without a lot the price is 5.
\<close>

definition booking_price :: "store \<Rightarrow> Booking \<Rightarrow> real" where
  "booking_price st b =
     (let lot = (if booking_lot_id b \<noteq> []
                 then (case ObjectId (booking_lot_id b) of
                         None \<Rightarrow> None
                       | Some lk \<Rightarrow> find_one (parkinglot st) lk)
                 else None)
      in case lot of None \<Rightarrow> 5 | Some l \<Rightarrow> price_per_hour (snd l))"

text \<open>
  The clock is read once for \<open>end\<close> (\<open>now\<close>) and, before that, once more when the booking
  has no start time (\<open>now0\<close>).
\<close>

definition end_booking ::
  "config \<Rightarrow> datetime \<Rightarrow> datetime \<Rightarrow> EndBookingRequest \<Rightarrow> store
     \<Rightarrow> (error + EndBookingResult) \<times> store" where
  "end_booking cfg now0 now req st =
     (if \<not> db_configured cfg then (Inl (HTTPException 500 ''Database not configured''), st)
      else if \<not> objectid_available cfg
      then (Inl (HTTPException 500 ''ObjectId not available''), st)
      else
        (case ObjectId (req_booking_id req) of
           None \<Rightarrow> (Inl (HTTPException 400 ''Invalid booking id''), st)
         | Some bk \<Rightarrow>
             (case find_one (booking st) bk of
                None \<Rightarrow> (Inl (HTTPException 404 ''Booking not found''), st)
              | Some b \<Rightarrow>
                  if status (snd b) \<noteq> Active
                  then (Inl (HTTPException 409 ''Booking already closed''), st)
                  else
                    (let price = booking_price st (snd b);
                         start = (case start_time (snd b) of None \<Rightarrow> now0 | Some t \<Rightarrow> t);
                         minutes = total_seconds now start / 60;
                         cost = round2 ((minutes / 60) * price);
                         st1 = st\<lparr>booking :=
                                 update_one (booking st) (fst b)
                                   (\<lambda>x. x\<lparr>status := Completed, end_time := Some now\<rparr>)\<rparr>;
                         st2 = (case ObjectId (booking_spot_id (snd b)) of
                                  None \<Rightarrow> st1
                                | Some sk \<Rightarrow>
                                    st1\<lparr>parkingspot :=
                                      update_one (parkingspot st1) sk
                                        (\<lambda>s. s\<lparr>is_occupied := False\<rparr>)\<rparr>)
                     in (Inr \<lparr>duration_minutes = minutes, amount_due = cost,
                              currency = ''USD''\<rparr>, st2)))))"

section \<open>Reachable states and the notions the properties are stated with\<close>

text \<open>
  The states the service reaches from the empty store by seeding, starting and ending
  bookings, one request after the other, under one deployment.
\<close>

inductive reachable :: "config \<Rightarrow> store \<Rightarrow> bool" for cfg :: config where
  reachable_empty: "reachable cfg empty_store"
| reachable_seed: "reachable cfg st \<Longrightarrow> reachable cfg (snd (seed_demo_data cfg st))"
| reachable_start:
    "reachable cfg st \<Longrightarrow> reachable cfg (snd (start_booking cfg now req st))"
| reachable_end:
    "reachable cfg st \<Longrightarrow> reachable cfg (snd (end_booking cfg now0 now req st))"

text \<open>
  A booking references the spot whose identifier its \<open>spot_id\<close> parses to: this is the spot
  \<open>start_booking\<close> marked occupied and the spot \<open>end_booking\<close> frees.
\<close>

definition active_on :: "oid \<Rightarrow> Booking document \<Rightarrow> bool" where
  "active_on k b =
     (status (snd b) = Active \<and> ObjectId (booking_spot_id (snd b)) = Some k)"

definition active_bookings :: "store \<Rightarrow> oid \<Rightarrow> Booking document list" where
  "active_bookings st k = filter (active_on k) (booking st)"

text \<open>
  The invariant of the reachable stores: the spots have distinct identifiers, all assigned
  before the counter; a booking's \<open>spot_id\<close>, when it parses, names a spot of the store;
  and a spot has one active booking when it is occupied and none when it is free.
\<close>

definition store_inv :: "store \<Rightarrow> bool" where
  "store_inv st =
     (distinct (map fst (parkingspot st)) \<and>
      (\<forall>s \<in> set (parkingspot st). fst s < next_oid st) \<and>
      (\<forall>b \<in> set (booking st). \<forall>k. ObjectId (booking_spot_id (snd b)) = Some k \<longrightarrow>
           k \<in> fst ` set (parkingspot st)) \<and>
      (\<forall>s \<in> set (parkingspot st).
           length (active_bookings st (fst s)) = (if is_occupied (snd s) then 1 else 0)))"

text \<open>The distance and the score the loop computes for a lot.\<close>

definition distance_km :: "RecommendationRequest \<Rightarrow> ParkingLot document \<Rightarrow> real" where
  "distance_km req lot =
     (case haversine (lat req) (lng req) (latitude (snd lot)) (longitude (snd lot)) of
        Inl e \<Rightarrow> 0
      | Inr d \<Rightarrow> d)"

definition lot_score :: "RecommendationRequest \<Rightarrow> store \<Rightarrow> ParkingLot document \<Rightarrow> real" where
  "lot_score req st lot = distance_km req lot - 0.05 * real (length (lot_spots req st lot))"

text \<open>
  \<open>best\<close> is the first lot, in enumeration order, of least score among the lots that have
  a spot to offer: every such lot before it scores strictly more, every such lot after it
  scores at least as much.
\<close>

definition first_best ::
  "RecommendationRequest \<Rightarrow> store \<Rightarrow> ParkingLot document list \<Rightarrow> ParkingLot document \<Rightarrow> bool"
  where
  "first_best req st lots best =
     (\<exists>pre post. lots = pre @ best # post \<and> lot_spots req st best \<noteq> [] \<and>
        (\<forall>l \<in> set pre. lot_spots req st l \<noteq> [] \<longrightarrow> lot_score req st best < lot_score req st l) \<and>
        (\<forall>l \<in> set post. lot_spots req st l \<noteq> [] \<longrightarrow>
             lot_score req st best \<le> lot_score req st l))"

text \<open>The \<open>i\<close>-th demo spot of the lot \<open>l\<close>.\<close>

definition seed_spot :: "string \<Rightarrow> nat \<Rightarrow> ParkingSpot" where
  "seed_spot l i =
     \<lparr>lot_id = l, spot_number = str_nat i, vehicle_type = seed_vtype i, is_occupied = False\<rparr>"

section \<open>Example deployment, stores and requests\<close>

definition cfg_ok :: config where
  "cfg_ok = \<lparr>db_configured = True, objectid_available = True\<rparr>"

text \<open>The store after the first seeding: lot 0 and its spots 1 to 12.\<close>

definition demo_store :: store where
  "demo_store = snd (seed_demo_data cfg_ok empty_store)"

text \<open>A booking of the accessible spot (spot 5) at time 0, and the store after it.\<close>

definition start_req :: StartBookingRequest where
  "start_req =
     \<lparr>req_lot_id = ''000000000000000000000000'', req_spot_id = ''000000000000000000000005'',
      req_vehicle_plate = ''7ABC123'', req_user_name = None\<rparr>"

definition booked_store :: store where
  "booked_store = snd (start_booking cfg_ok 0 start_req demo_store)"

text \<open>The same request with a lot identifier that is not an ObjectId.\<close>

definition bad_lot_req :: StartBookingRequest where
  "bad_lot_req = start_req\<lparr>req_lot_id := ''downtown''\<rparr>"


text \<open>The request that ends the booking of \<open>booked_store\<close> (document 13).\<close>

definition end_req :: EndBookingRequest where
  "end_req = \<lparr>req_booking_id = ''00000000000000000000000d''\<rparr>"

text \<open>Requests at the demo lot's coordinates, without and with a category.\<close>

definition any_req :: RecommendationRequest where
  "any_req = \<lparr>lat = 37.7749, lng = - 122.4194, req_vehicle_type = None\<rparr>"

definition ev_req :: RecommendationRequest where
  "ev_req = \<lparr>lat = 37.7749, lng = - 122.4194, req_vehicle_type = Some ''ev''\<rparr>"

text \<open>The demo store after both electric spots (3 and 7) have been booked.\<close>

definition ev_full_store :: store where
  "ev_full_store =
     snd (start_booking cfg_ok 0 (start_req\<lparr>req_spot_id := ''000000000000000000000007''\<rparr>)
       (snd (start_booking cfg_ok 0 (start_req\<lparr>req_spot_id := ''000000000000000000000003''\<rparr>)
          demo_store)))"

section \<open>Looking up and updating documents\<close>

lemma find_one_update_one:
  "find_one (update_one docs k f) k = map_option (\<lambda>d. (fst d, f (snd d))) (find_one docs k)"
  by (induction docs) (auto simp: find_one_def)

lemma find_one_fst: "find_one docs k = Some d \<Longrightarrow> fst d = k"
  by (induction docs) (auto simp: find_one_def split: if_splits)

lemma find_one_mem: "find_one docs k = Some d \<Longrightarrow> d \<in> set docs"
  by (induction docs) (auto simp: find_one_def split: if_splits)

section \<open>Seeding is idempotent\<close>

lemma seed_vtype_valid: "seed_vtype i \<in> set vehicle_types"
  by (simp add: seed_vtype_def vehicle_types_def Let_def)

lemma seed_spots_eq:
  "seed_spots l is st =
     (None, st\<lparr>parkingspot := parkingspot st @
                 map (\<lambda>(k, i). (k, seed_spot l i))
                   (zip [next_oid st..<next_oid st + length is] is),
               next_oid := next_oid st + length is\<rparr>)"
proof (induction "is" arbitrary: st)
  case Nil
  then show ?case by simp
next
  case (Cons i "is")
  have mk: "mk_ParkingSpot l (str_nat i) (seed_vtype i) False = Inr (seed_spot l i)"
    by (simp add: mk_ParkingSpot_def seed_vtype_valid seed_spot_def)
  have u: "[next_oid st..<next_oid st + Suc (length is)] =
           next_oid st # [Suc (next_oid st)..<Suc (next_oid st) + length is]"
    using upt_conv_Cons [of "next_oid st" "next_oid st + Suc (length is)"] by simp
  show ?case
    using u by (simp add: mk Cons.IH create_parkingspot_def)
qed

lemma seed_demo_data_empty:
  assumes "db_configured cfg" "parkinglot st = []"
  shows "seed_demo_data cfg st =
     (Inr \<lparr>seed_status = ''ok'', seeded = True, seed_lot_id = Some (str_oid (next_oid st))\<rparr>,
      st\<lparr>parkinglot := [(next_oid st,
             \<lparr>name = ''Downtown Central'', latitude = 37.7749, longitude = - 122.4194,
              address = Some ''123 Market St, San Francisco, CA'', price_per_hour = 5,
              total_spots = 12\<rparr>)],
         parkingspot := parkingspot st @
           map (\<lambda>(k, i). (k, seed_spot (str_oid (next_oid st)) i))
             (zip [Suc (next_oid st)..<Suc (next_oid st) + 12] [1..<13]),
         next_oid := next_oid st + 13\<rparr>)"
  using assms
  by (simp add: seed_demo_data_def mk_ParkingLot_def create_parkinglot_def seed_spots_eq
      del: upt_Suc)

lemma seed_demo_data_nonempty:
  "db_configured cfg \<Longrightarrow> parkinglot st \<noteq> [] \<Longrightarrow>
   seed_demo_data cfg st =
     (Inr \<lparr>seed_status = ''ok'', seeded = False, seed_lot_id = None\<rparr>, st)"
  by (simp add: seed_demo_data_def)

lemma seed_demo_data_unconfigured:
  "\<not> db_configured cfg \<Longrightarrow>
   seed_demo_data cfg st = (Inl (HTTPException 500 ''Database not configured''), st)"
  by (simp add: seed_demo_data_def)

lemma upt_1_13: "[Suc 0..<13] = [1, 2, 3, 4, 5, 6, 7, 8, 9, 10, 11, 12 :: nat]"
  by code_simp

lemma str_oid_0: "str_oid 0 = ''000000000000000000000000''"
  by code_simp

lemma str_oid_13: "str_oid 13 = ''00000000000000000000000d''"
  by code_simp

lemma str_nat_values:
  "str_nat 1 = ''1''" "str_nat 2 = ''2''" "str_nat 3 = ''3''" "str_nat 4 = ''4''"
  "str_nat 5 = ''5''" "str_nat 6 = ''6''" "str_nat 7 = ''7''" "str_nat 8 = ''8''"
  "str_nat 9 = ''9''" "str_nat 10 = ''10''" "str_nat 11 = ''11''" "str_nat 12 = ''12''"
  by code_simp+

lemma demo_store_eq: "demo_store =
 \<lparr>parkinglot =
    [(0, \<lparr>name = ''Downtown Central'', latitude = 37.7749,
            longitude = - 122.4194,
            address = Some ''123 Market St, San Francisco, CA'',
            price_per_hour = 5, total_spots = 12\<rparr>)],
    parkingspot =
      [(1, \<lparr>lot_id = ''000000000000000000000000'', spot_number = ''1'',
              vehicle_type = ''car'', is_occupied = False\<rparr>),
       (2, \<lparr>lot_id = ''000000000000000000000000'', spot_number = ''2'',
              vehicle_type = ''car'', is_occupied = False\<rparr>),
       (3, \<lparr>lot_id = ''000000000000000000000000'', spot_number = ''3'',
              vehicle_type = ''ev'', is_occupied = False\<rparr>),
       (4, \<lparr>lot_id = ''000000000000000000000000'', spot_number = ''4'',
              vehicle_type = ''car'', is_occupied = False\<rparr>),
       (5, \<lparr>lot_id = ''000000000000000000000000'', spot_number = ''5'',
              vehicle_type = ''accessible'', is_occupied = False\<rparr>),
       (6, \<lparr>lot_id = ''000000000000000000000000'', spot_number = ''6'',
              vehicle_type = ''car'', is_occupied = False\<rparr>),
       (7, \<lparr>lot_id = ''000000000000000000000000'', spot_number = ''7'',
              vehicle_type = ''ev'', is_occupied = False\<rparr>),
       (8, \<lparr>lot_id = ''000000000000000000000000'', spot_number = ''8'',
              vehicle_type = ''car'', is_occupied = False\<rparr>),
       (9, \<lparr>lot_id = ''000000000000000000000000'', spot_number = ''9'',
              vehicle_type = ''car'', is_occupied = False\<rparr>),
       (10, \<lparr>lot_id = ''000000000000000000000000'', spot_number = ''10'',
           vehicle_type = ''car'', is_occupied = False\<rparr>),
       (11, \<lparr>lot_id = ''000000000000000000000000'', spot_number = ''11'',
           vehicle_type = ''car'', is_occupied = False\<rparr>),
       (12, \<lparr>lot_id = ''000000000000000000000000'', spot_number = ''12'',
           vehicle_type = ''car'', is_occupied = False\<rparr>)],
    booking = [], next_oid = 13\<rparr>"
  using str_nat_values
  by (simp add: demo_store_def seed_demo_data_def cfg_ok_def empty_store_def mk_ParkingLot_def
      create_parkinglot_def seed_spots_eq upt_1_13 str_oid_0 seed_spot_def seed_vtype_def)

text \<open>
  C8. Seeding is idempotent. A second call of \<open>seed_demo_data\<close> right after a first one,
  from any store, changes nothing, and on a configured deployment it answers
  \<open>seeded = False\<close>, as does any call on a store that holds a lot. The demo lot and its
  twelve spots are created by the first call only, and only when the store held no lot.
\<close>

theorem seed_idempotent:
  "snd (seed_demo_data cfg (snd (seed_demo_data cfg st))) = snd (seed_demo_data cfg st) \<and>
   (db_configured cfg \<longrightarrow>
      fst (seed_demo_data cfg (snd (seed_demo_data cfg st))) =
        Inr \<lparr>seed_status = ''ok'', seeded = False, seed_lot_id = None\<rparr>) \<and>
   (db_configured cfg \<and> parkinglot st \<noteq> [] \<longrightarrow>
      seed_demo_data cfg st =
        (Inr \<lparr>seed_status = ''ok'', seeded = False, seed_lot_id = None\<rparr>, st)) \<and>
   (db_configured cfg \<and> parkinglot st = [] \<longrightarrow>
      fst (seed_demo_data cfg st) =
        Inr \<lparr>seed_status = ''ok'', seeded = True,
             seed_lot_id = Some (str_oid (next_oid st))\<rparr> \<and>
      length (parkinglot (snd (seed_demo_data cfg st))) = 1 \<and>
      length (parkingspot (snd (seed_demo_data cfg st))) = length (parkingspot st) + 12)"
proof (cases "db_configured cfg")
  case False
  then show ?thesis by (simp add: seed_demo_data_unconfigured)
next
  case c: True
  show ?thesis
  proof (cases "parkinglot st = []")
    case True
    have "parkinglot (snd (seed_demo_data cfg st)) \<noteq> []"
      by (simp add: seed_demo_data_empty [OF c True])
    then show ?thesis
      using True c seed_demo_data_nonempty [OF c, of "snd (seed_demo_data cfg st)"]
      by (simp add: seed_demo_data_empty [OF c True] del: upt_Suc)
  next
    case False
    then show ?thesis using c seed_demo_data_nonempty [OF c] by simp
  qed
qed

theorem seed_idempotent_witness:
  "db_configured cfg_ok \<and> parkinglot empty_store = [] \<and>
   fst (seed_demo_data cfg_ok empty_store) =
     Inr \<lparr>seed_status = ''ok'', seeded = True,
          seed_lot_id = Some ''000000000000000000000000''\<rparr> \<and>
   length (parkinglot demo_store) = 1 \<and> length (parkingspot demo_store) = 12 \<and>
   seed_demo_data cfg_ok demo_store =
     (Inr \<lparr>seed_status = ''ok'', seeded = False, seed_lot_id = None\<rparr>, demo_store)"
proof -
  have c: "db_configured cfg_ok" "parkinglot empty_store = []" "parkingspot empty_store = []"
    "next_oid empty_store = 0"
    by (simp_all add: cfg_ok_def empty_store_def)
  from seed_idempotent [of cfg_ok empty_store] have
    "snd (seed_demo_data cfg_ok demo_store) = demo_store"
    "fst (seed_demo_data cfg_ok demo_store) =
       Inr \<lparr>seed_status = ''ok'', seeded = False, seed_lot_id = None\<rparr>"
    "fst (seed_demo_data cfg_ok empty_store) =
       Inr \<lparr>seed_status = ''ok'', seeded = True,
            seed_lot_id = Some ''000000000000000000000000''\<rparr>"
    "length (parkinglot demo_store) = 1" "length (parkingspot demo_store) = 12"
    unfolding demo_store_def using c by (simp_all add: str_oid_0)
  then show ?thesis using c(1,2) by (simp add: prod_eq_iff)
qed

section \<open>Starting a booking\<close>

lemma ObjectId_empty: "ObjectId [] = None"
  by (simp add: ObjectId_def)

lemma ObjectId_values:
  "ObjectId ''000000000000000000000000'' = Some 0"
  "ObjectId ''000000000000000000000001'' = Some 1"
  "ObjectId ''000000000000000000000003'' = Some 3"
  "ObjectId ''000000000000000000000005'' = Some 5"
  "ObjectId ''000000000000000000000007'' = Some 7"
  "ObjectId ''00000000000000000000000d'' = Some 13"
  "ObjectId ''ffffffffffffffffffffffff'' = Some 79228162514264337593543950335"
  "ObjectId ''downtown'' = None"
  by (simp_all add: ObjectId_def is_hex_def hex_val_def)

lemma booked_store_eq:
  "booked_store =
     demo_store\<lparr>parkingspot :=
                  update_one (parkingspot demo_store) 5 (\<lambda>s. s\<lparr>is_occupied := True\<rparr>),
                booking :=
                  [(13, \<lparr>booking_lot_id = ''000000000000000000000000'',
                         booking_spot_id = ''000000000000000000000005'',
                         vehicle_plate = ''7ABC123'', user_name = None,
                         start_time = Some 0, end_time = None, status = Active\<rparr>)],
                next_oid := 14\<rparr>"
  by (simp add: booked_store_def start_booking_def cfg_ok_def start_req_def ObjectId_values
      demo_store_eq find_one_def create_booking_def str_oid_13)

lemma find_booked_spot:
  "find_one (parkingspot booked_store) 5 =
     Some (5, \<lparr>lot_id = ''000000000000000000000000'', spot_number = ''5'',
               vehicle_type = ''accessible'', is_occupied = True\<rparr>)"
  by (simp add: booked_store_eq demo_store_eq find_one_def)

text \<open>
  C2. Starting a booking on a spot that exists and is occupied never succeeds and leaves the
  store as it was. The error is the conflict 409 when the lot identifier of the request is
  well-formed (on a configured deployment); when it is malformed the request has already
  failed with 400 before the spot is looked at.
\<close>

theorem start_booking_occupied:
  assumes "ObjectId (req_spot_id req) = Some sk"
    and "find_one (parkingspot st) sk = Some spot"
    and "is_occupied (snd spot)"
  shows "(\<exists>e. start_booking cfg now req st = (Inl e, st)) \<and>
         (db_configured cfg \<and> objectid_available cfg \<and> ObjectId (req_lot_id req) \<noteq> None \<longrightarrow>
            start_booking cfg now req st =
              (Inl (HTTPException 409 ''Spot already occupied''), st)) \<and>
         (db_configured cfg \<and> objectid_available cfg \<and> ObjectId (req_lot_id req) = None \<longrightarrow>
            start_booking cfg now req st = (Inl (HTTPException 400 ''Invalid lot id''), st))"
  using assms by (auto simp: start_booking_def Let_def split: option.splits)

theorem start_booking_occupied_witness:
  "ObjectId (req_spot_id start_req) = Some 5 \<and>
   find_one (parkingspot booked_store) 5 =
     Some (5, \<lparr>lot_id = ''000000000000000000000000'', spot_number = ''5'',
               vehicle_type = ''accessible'', is_occupied = True\<rparr>) \<and>
   start_booking cfg_ok 1 start_req booked_store =
     (Inl (HTTPException 409 ''Spot already occupied''), booked_store)"
  using start_booking_occupied [of start_req 5 booked_store _ cfg_ok 1, OF _ find_booked_spot]
  by (simp add: start_req_def ObjectId_values find_booked_spot cfg_ok_def)

theorem start_booking_occupied_bad_lot:
  "ObjectId (req_spot_id bad_lot_req) = Some 5 \<and>
   find_one (parkingspot booked_store) 5 =
     Some (5, \<lparr>lot_id = ''000000000000000000000000'', spot_number = ''5'',
               vehicle_type = ''accessible'', is_occupied = True\<rparr>) \<and>
   start_booking cfg_ok 1 bad_lot_req booked_store =
     (Inl (HTTPException 400 ''Invalid lot id''), booked_store) \<and>
   fst (start_booking cfg_ok 1 bad_lot_req booked_store) \<noteq>
     Inl (HTTPException 409 ''Spot already occupied'')"
  by (simp add: bad_lot_req_def start_req_def ObjectId_values find_booked_spot cfg_ok_def
      start_booking_def)


section \<open>Ending a booking\<close>



lemma round2_5: "round2 5 = 5"
  by (simp add: round2_def)

lemma booking_price_eq:
  "booking_price st b =
     (case ObjectId (booking_lot_id b) of
        None \<Rightarrow> 5
      | Some lk \<Rightarrow>
          (case find_one (parkinglot st) lk of
             None \<Rightarrow> 5
           | Some l \<Rightarrow> price_per_hour (snd l)))"
  by (auto simp: booking_price_def ObjectId_empty split: option.splits)

lemma end_booking_active:
  assumes "db_configured cfg" and "objectid_available cfg"
    and "ObjectId (req_booking_id req) = Some bk"
    and "find_one (booking st) bk = Some b"
    and "status (snd b) = Active"
  shows "\<exists>st'. end_booking cfg now0 now req st =
     (Inr \<lparr>duration_minutes =
             total_seconds now (case start_time (snd b) of None \<Rightarrow> now0 | Some t \<Rightarrow> t) / 60,
           amount_due =
             round2 (total_seconds now
                       (case start_time (snd b) of None \<Rightarrow> now0 | Some t \<Rightarrow> t) / 60 / 60 *
                     booking_price st (snd b)),
           currency = ''USD''\<rparr>, st') \<and>
     booking st' = update_one (booking st) bk
                     (\<lambda>x. x\<lparr>status := Completed, end_time := Some now\<rparr>)"
proof -
  have "fst b = bk" using assms(4) by (rule find_one_fst)
  then show ?thesis
    using assms by (simp add: end_booking_def Let_def split: option.splits)
qed


lemma find_booking_13:
  "find_one (booking booked_store) 13 =
     Some (13, \<lparr>booking_lot_id = ''000000000000000000000000'',
                booking_spot_id = ''000000000000000000000005'',
                vehicle_plate = ''7ABC123'', user_name = None,
                start_time = Some 0, end_time = None, status = Active\<rparr>)"
  by (simp add: booked_store_eq find_one_def)

lemma end_booked_store:
  "fst (end_booking cfg_ok 0 3600000000 end_req booked_store) =
     Inr \<lparr>duration_minutes = 60, amount_due = 5, currency = ''USD''\<rparr>"
proof -
  have p: "booking_price booked_store
             \<lparr>booking_lot_id = ''000000000000000000000000'',
              booking_spot_id = ''000000000000000000000005'',
              vehicle_plate = ''7ABC123'', user_name = None,
              start_time = Some 0, end_time = None, status = Active\<rparr> = 5"
    by (simp add: booking_price_eq ObjectId_values booked_store_eq demo_store_eq find_one_def)
  from end_booking_active [of cfg_ok end_req 13 booked_store _ 0 3600000000,
      OF _ _ _ find_booking_13]
  show ?thesis
    by (auto simp: cfg_ok_def end_req_def ObjectId_values p total_seconds_def round2_5)
qed


text \<open>
  C4. After a successful \<open>end_booking\<close>, every later \<open>end_booking\<close> of the same booking
  (any request whose identifier parses to the same ObjectId, at any time) fails with the
  conflict 409 ``Booking already closed'' and leaves the store as it was: the first call
  set the status to completed, and the status is checked before anything is computed.
\<close>

theorem end_booking_twice:
  assumes "end_booking cfg t0 t1 req st = (Inr r, st')"
    and "ObjectId (req_booking_id req') = ObjectId (req_booking_id req)"
  shows "end_booking cfg t2 t3 req' st' =
           (Inl (HTTPException 409 ''Booking already closed''), st')"
proof -
  from assms(1) obtain bk b where
    c: "db_configured cfg" "objectid_available cfg" and
    bk: "ObjectId (req_booking_id req) = Some bk" and
    b: "find_one (booking st) bk = Some b" and
    bst: "booking st' = update_one (booking st) (fst b)
            (\<lambda>x. x\<lparr>status := Completed, end_time := Some t1\<rparr>)"
    by (auto simp: end_booking_def Let_def split: option.splits if_splits)
  have "fst b = bk" using b by (rule find_one_fst)
  then have "find_one (booking st') bk =
      Some (bk, (snd b)\<lparr>status := Completed, end_time := Some t1\<rparr>)"
    using b by (simp add: bst find_one_update_one)
  then show ?thesis using c bk assms(2)
    by (simp add: end_booking_def)
qed

theorem end_booking_twice_witness:
  "fst (end_booking cfg_ok 0 3600000000 end_req booked_store) =
     Inr \<lparr>duration_minutes = 60, amount_due = 5, currency = ''USD''\<rparr> \<and>
   end_booking cfg_ok 0 7200000000 end_req
       (snd (end_booking cfg_ok 0 3600000000 end_req booked_store)) =
     (Inl (HTTPException 409 ''Booking already closed''),
      snd (end_booking cfg_ok 0 3600000000 end_req booked_store))"
proof -
  have "end_booking cfg_ok 0 3600000000 end_req booked_store =
     (Inr \<lparr>duration_minutes = 60, amount_due = 5, currency = ''USD''\<rparr>,
      snd (end_booking cfg_ok 0 3600000000 end_req booked_store))"
    using end_booked_store by (metis prod.collapse)
  from end_booking_twice [OF this refl, of 0 7200000000] end_booked_store
  show ?thesis by simp
qed

section \<open>The recommended lot and spot\<close>

subsection \<open>The distance is defined for all coordinates\<close>

lemma sin_half_squared: "(sin (x / 2))\<^sup>2 = (1 - cos x) / (2::real)"
  using cos_double_sin [of "x / 2"] by simp

lemma between_endpoints:
  fixes s c t :: real
  assumes "\<bar>s + c\<bar> \<le> 1" and "\<bar>s - c\<bar> \<le> 1" and "\<bar>t\<bar> \<le> 1"
  shows "\<bar>s + c * t\<bar> \<le> 1"
proof -
  have "\<bar>c * t\<bar> \<le> \<bar>c\<bar>" using assms(3) by (simp add: abs_mult mult_left_le)
  then have "c * t \<le> \<bar>c\<bar>" "- \<bar>c\<bar> \<le> c * t" by linarith+
  moreover have "s + \<bar>c\<bar> \<le> 1" "-1 \<le> s - \<bar>c\<bar>" using assms(1,2) by linarith+
  ultimately show ?thesis by linarith
qed

lemma haversine_radicand:
  fixes p1 p2 dl :: real
  shows "0 \<le> (sin ((p2 - p1) / 2))\<^sup>2 + cos p1 * cos p2 * (sin (dl / 2))\<^sup>2 \<and>
    (sin ((p2 - p1) / 2))\<^sup>2 + cos p1 * cos p2 * (sin (dl / 2))\<^sup>2 \<le> 1"
proof -
  let ?s = "sin p1 * sin p2" and ?c = "cos p1 * cos p2"
  have a: "(sin ((p2 - p1) / 2))\<^sup>2 + ?c * (sin (dl / 2))\<^sup>2 = (1 - (?s + ?c * cos dl)) / 2"
    by (simp add: sin_half_squared cos_diff field_simps)
  have "?s + ?c = cos (p1 - p2)" "?s - ?c = - cos (p1 + p2)"
    by (simp_all add: cos_diff cos_add)
  then have "\<bar>?s + ?c\<bar> \<le> 1" "\<bar>?s - ?c\<bar> \<le> 1" by simp_all
  then have "\<bar>?s + ?c * cos dl\<bar> \<le> 1" by (rule between_endpoints) simp
  then have b: "?s + ?c * cos dl \<le> 1" "- 1 \<le> ?s + ?c * cos dl"
    by (simp_all add: abs_le_iff)
  have "0 \<le> (1 - (?s + ?c * cos dl)) / 2"
    using b(1) by simp
  moreover have "(1 - (?s + ?c * cos dl)) / 2 \<le> 1"
    using b(2) by simp
  ultimately show ?thesis unfolding a by simp
qed

lemma radians_diff: "radians (x - y) = radians x - radians y"
  by (simp add: radians_def algebra_simps diff_divide_distrib)

lemma haversine_total: "\<exists>d. haversine lat1 lon1 lat2 lon2 = Inr d"
  using haversine_radicand [of "radians lat2" "radians lat1" "radians (lon2 - lon1)"]
  by (simp add: haversine_def Let_def radians_diff not_less)

lemma haversine_same: "haversine x y x y = Inr 0"
  by (simp add: haversine_def Let_def radians_def atan2_def)

lemma haversine_distance:
  "haversine (lat req) (lng req) (latitude (snd l)) (longitude (snd l)) = Inr (distance_km req l)"
  using haversine_total [of "lat req" "lng req" "latitude (snd l)" "longitude (snd l)"]
  by (auto simp: distance_km_def)

subsection \<open>The loop keeps the first lot of least score\<close>

lemma recommend_loop_Cons:
  "recommend_loop req st (lot # lots) acc =
    (if lot_spots req st lot = [] then recommend_loop req st lots acc
     else if score_less (lot_score req st lot) (fst (snd acc))
       then recommend_loop req st lots
              (Some lot, Some (lot_score req st lot), Some (hd (lot_spots req st lot)))
       else recommend_loop req st lots acc)"
  by (simp add: haversine_distance lot_score_def Let_def split: list.splits)

lemma first_best_Cons:
  assumes "first_best req st lots best"
    and "lot_spots req st l \<noteq> [] \<longrightarrow> lot_score req st best < lot_score req st l"
  shows "first_best req st (l # lots) best"
proof -
  from assms(1) obtain pre post where
    p: "lots = pre @ best # post" "lot_spots req st best \<noteq> []"
       "\<forall>l \<in> set pre. lot_spots req st l \<noteq> [] \<longrightarrow> lot_score req st best < lot_score req st l"
       "\<forall>l \<in> set post. lot_spots req st l \<noteq> [] \<longrightarrow> lot_score req st best \<le> lot_score req st l"
    unfolding first_best_def by blast
  have "l # lots = (l # pre) @ best # post" using p(1) by simp
  moreover have "\<forall>x \<in> set (l # pre).
      lot_spots req st x \<noteq> [] \<longrightarrow> lot_score req st best < lot_score req st x"
    using p(3) assms(2) by simp
  ultimately show ?thesis unfolding first_best_def using p(2,4) by blast
qed

lemma first_best_head:
  assumes "lot_spots req st l \<noteq> []"
    and "\<forall>x \<in> set lots. lot_spots req st x \<noteq> [] \<longrightarrow> lot_score req st l \<le> lot_score req st x"
  shows "first_best req st (l # lots) l"
proof -
  have "l # lots = [] @ l # lots" by simp
  then show ?thesis unfolding first_best_def using assms by fastforce
qed

lemma first_best_mem:
  "first_best req st lots best \<Longrightarrow> best \<in> set lots \<and> lot_spots req st best \<noteq> []"
  unfolding first_best_def by auto

lemma score_less_trans: "a < b \<Longrightarrow> score_less b s \<Longrightarrow> score_less a s"
  by (auto simp: score_less_def split: option.splits)

lemma score_less_not: "score_less a s \<Longrightarrow> \<not> score_less b s \<Longrightarrow> a < b"
  by (auto simp: score_less_def split: option.splits)

lemma recommend_loop_result:
  "recommend_loop req st lots (b, s, c) = Inr (b, s, c) \<and>
     (\<forall>l \<in> set lots. lot_spots req st l \<noteq> [] \<longrightarrow> \<not> score_less (lot_score req st l) s)
   \<or> (\<exists>best. first_best req st lots best \<and> score_less (lot_score req st best) s \<and>
         recommend_loop req st lots (b, s, c) =
           Inr (Some best, Some (lot_score req st best), Some (hd (lot_spots req st best))))"
proof (induction lots arbitrary: b s c)
  case Nil
  then show ?case by simp
next
  case (Cons l lots)
  let ?sc = "lot_score req st"
  show ?case
  proof (cases "lot_spots req st l = []")
    case True
    then have e: "recommend_loop req st (l # lots) (b, s, c) = recommend_loop req st lots (b, s, c)"
      by (simp add: recommend_loop_Cons del: recommend_loop.simps(2))
    from Cons.IH [of b s c] show ?thesis
    proof
      assume "recommend_loop req st lots (b, s, c) = Inr (b, s, c) \<and>
        (\<forall>l \<in> set lots. lot_spots req st l \<noteq> [] \<longrightarrow> \<not> score_less (?sc l) s)"
      then show ?thesis using True e by simp
    next
      assume "\<exists>best. first_best req st lots best \<and> score_less (?sc best) s \<and>
         recommend_loop req st lots (b, s, c) =
           Inr (Some best, Some (?sc best), Some (hd (lot_spots req st best)))"
      then obtain best where "first_best req st lots best" "score_less (?sc best) s"
        "recommend_loop req st lots (b, s, c) =
           Inr (Some best, Some (?sc best), Some (hd (lot_spots req st best)))"
        by blast
      then have "first_best req st (l # lots) best \<and> score_less (?sc best) s \<and>
         recommend_loop req st (l # lots) (b, s, c) =
           Inr (Some best, Some (?sc best), Some (hd (lot_spots req st best)))"
        using first_best_Cons [of req st lots best l] True e by simp
      then show ?thesis by blast
    qed
  next
    case cand: False
    show ?thesis
    proof (cases "score_less (?sc l) s")
      case True
      let ?acc = "(Some l, Some (?sc l), Some (hd (lot_spots req st l)))"
      have e: "recommend_loop req st (l # lots) (b, s, c) = recommend_loop req st lots ?acc"
        using cand True by (simp add: recommend_loop_Cons del: recommend_loop.simps(2))
      from Cons.IH [of "Some l" "Some (?sc l)" "Some (hd (lot_spots req st l))"] show ?thesis
      proof
        assume a: "recommend_loop req st lots ?acc = Inr ?acc \<and>
          (\<forall>x \<in> set lots. lot_spots req st x \<noteq> [] \<longrightarrow> \<not> score_less (?sc x) (Some (?sc l)))"
        then have "\<forall>x \<in> set lots. lot_spots req st x \<noteq> [] \<longrightarrow> ?sc l \<le> ?sc x"
          by (auto simp: score_less_def)
        then have "first_best req st (l # lots) l" using cand by (rule first_best_head [rotated])
        then have "first_best req st (l # lots) l \<and> score_less (?sc l) s \<and>
           recommend_loop req st (l # lots) (b, s, c) =
             Inr (Some l, Some (?sc l), Some (hd (lot_spots req st l)))"
          using a e True by simp
        then show ?thesis by blast
      next
        assume "\<exists>best. first_best req st lots best \<and> score_less (?sc best) (Some (?sc l)) \<and>
           recommend_loop req st lots ?acc =
             Inr (Some best, Some (?sc best), Some (hd (lot_spots req st best)))"
        then obtain best where bst: "first_best req st lots best" "?sc best < ?sc l"
          "recommend_loop req st lots ?acc =
             Inr (Some best, Some (?sc best), Some (hd (lot_spots req st best)))"
          by (auto simp: score_less_def)
        have "first_best req st (l # lots) best" using bst(1,2) by (simp add: first_best_Cons)
        moreover have "score_less (?sc best) s" using bst(2) True by (rule score_less_trans)
        ultimately have "first_best req st (l # lots) best \<and> score_less (?sc best) s \<and>
           recommend_loop req st (l # lots) (b, s, c) =
             Inr (Some best, Some (?sc best), Some (hd (lot_spots req st best)))"
          using bst(3) e by simp
        then show ?thesis by blast
      qed
    next
      case False
      then have e: "recommend_loop req st (l # lots) (b, s, c) = recommend_loop req st lots (b, s, c)"
        using cand by (simp add: recommend_loop_Cons del: recommend_loop.simps(2))
      from Cons.IH [of b s c] show ?thesis
      proof
        assume "recommend_loop req st lots (b, s, c) = Inr (b, s, c) \<and>
          (\<forall>l \<in> set lots. lot_spots req st l \<noteq> [] \<longrightarrow> \<not> score_less (?sc l) s)"
        then show ?thesis using False e by simp
      next
        assume "\<exists>best. first_best req st lots best \<and> score_less (?sc best) s \<and>
           recommend_loop req st lots (b, s, c) =
             Inr (Some best, Some (?sc best), Some (hd (lot_spots req st best)))"
        then obtain best where bst: "first_best req st lots best" "score_less (?sc best) s"
          "recommend_loop req st lots (b, s, c) =
             Inr (Some best, Some (?sc best), Some (hd (lot_spots req st best)))"
          by blast
        have "?sc best < ?sc l" using bst(2) False by (rule score_less_not)
        then have "first_best req st (l # lots) best" using bst(1) by (simp add: first_best_Cons)
        then have "first_best req st (l # lots) best \<and> score_less (?sc best) s \<and>
           recommend_loop req st (l # lots) (b, s, c) =
             Inr (Some best, Some (?sc best), Some (hd (lot_spots req st best)))"
          using bst(2,3) e by simp
        then show ?thesis by blast
      qed
    qed
  qed
qed

lemma recommend_loop_none:
  assumes "\<forall>l \<in> set lots. lot_spots req st l = []"
  shows "recommend_loop req st lots acc = Inr acc"
  using assms by (induction lots) (simp_all add: recommend_loop_Cons del: recommend_loop.simps(2))

lemma recommend_loop_some:
  assumes "\<exists>l \<in> set lots. lot_spots req st l \<noteq> []"
  shows "\<exists>best. first_best req st lots best \<and>
     recommend_loop req st lots (None, None, None) =
       Inr (Some best, Some (lot_score req st best), Some (hd (lot_spots req st best)))"
  using recommend_loop_result [of req st lots None None None] assms
  by (auto simp: score_less_def)

lemma recommend_parking_none:
  assumes "db_configured cfg" and "parkinglot st \<noteq> []"
    and "\<forall>l \<in> set (parkinglot st). lot_spots req st l = []"
  shows "recommend_parking cfg req st = Inl (HTTPException 404 ''No suitable spots found'')"
  using assms by (simp add: recommend_parking_def recommend_loop_none)

lemma recommend_parking_some:
  assumes "db_configured cfg" and "\<exists>l \<in> set (parkinglot st). lot_spots req st l \<noteq> []"
  shows "\<exists>best s0 rest. first_best req st (parkinglot st) best \<and>
     lot_spots req st best = s0 # rest \<and>
     recommend_parking cfg req st =
       Inr \<lparr>resp_lot_id = str_oid (fst best), lot_name = name (snd best),
            spot_id = Some (str_oid (fst s0)),
            resp_spot_number = Some (spot_number (snd s0)),
            reason = ''Closest lot with available matching spots''\<rparr>"
proof -
  from recommend_loop_some [OF assms(2)] obtain best where
    b: "first_best req st (parkinglot st) best"
    "recommend_loop req st (parkinglot st) (None, None, None) =
       Inr (Some best, Some (lot_score req st best), Some (hd (lot_spots req st best)))"
    by blast
  from first_best_mem [OF b(1)] obtain s0 rest where s: "lot_spots req st best = s0 # rest"
    by (auto simp: neq_Nil_conv)
  have "parkinglot st \<noteq> []" using assms(2) by auto
  then have "recommend_parking cfg req st =
       Inr \<lparr>resp_lot_id = str_oid (fst best), lot_name = name (snd best),
            spot_id = Some (str_oid (fst s0)),
            resp_spot_number = Some (spot_number (snd s0)),
            reason = ''Closest lot with available matching spots''\<rparr>"
    using assms(1) b(2) s by (simp add: recommend_parking_def)
  then show ?thesis using b(1) s by blast
qed


lemma str_oid_values:
  "str_oid (Suc 0) = ''000000000000000000000001''"
  "str_oid 3 = ''000000000000000000000003''"
  "str_oid 14 = ''00000000000000000000000e''"
  by code_simp+

lemma recommend_any_demo:
  "recommend_parking cfg_ok any_req demo_store =
     Inr \<lparr>resp_lot_id = ''000000000000000000000000'', lot_name = ''Downtown Central'',
          spot_id = Some ''000000000000000000000001'', resp_spot_number = Some ''1'',
          reason = ''Closest lot with available matching spots''\<rparr>"
  by (simp add: recommend_parking_def cfg_ok_def demo_store_eq lot_spots_def Let_def truthy_def
      any_req_def str_oid_0 str_oid_values haversine_same score_less_def)

lemma recommend_ev_demo:
  "recommend_parking cfg_ok ev_req demo_store =
     Inr \<lparr>resp_lot_id = ''000000000000000000000000'', lot_name = ''Downtown Central'',
          spot_id = Some ''000000000000000000000003'', resp_spot_number = Some ''3'',
          reason = ''Closest lot with available matching spots''\<rparr>"
  by (simp add: recommend_parking_def cfg_ok_def demo_store_eq lot_spots_def Let_def truthy_def
      ev_req_def str_oid_0 str_oid_values haversine_same score_less_def)



text \<open>
  C10. A request whose \<open>vehicle_type\<close> is the empty string is answered exactly as the same
  request without a \<open>vehicle_type\<close>: the filter is applied only to a truthy value.
\<close>

theorem recommend_parking_empty_filter:
  "recommend_parking cfg (req\<lparr>req_vehicle_type := Some []\<rparr>) st =
   recommend_parking cfg (req\<lparr>req_vehicle_type := None\<rparr>) st"
proof -
  have ls: "lot_spots (req\<lparr>req_vehicle_type := Some []\<rparr>) st =
            lot_spots (req\<lparr>req_vehicle_type := None\<rparr>) st"
    by (rule ext) (simp add: lot_spots_def truthy_def)
  have "recommend_loop (req\<lparr>req_vehicle_type := Some []\<rparr>) st lots acc =
        recommend_loop (req\<lparr>req_vehicle_type := None\<rparr>) st lots acc" for lots acc
    by (induction lots arbitrary: acc) (simp_all add: ls Let_def split: list.splits sum.splits)
  then show ?thesis by (simp add: recommend_parking_def)
qed

theorem recommend_parking_empty_filter_witness:
  "recommend_parking cfg_ok (any_req\<lparr>req_vehicle_type := Some []\<rparr>) demo_store =
     Inr \<lparr>resp_lot_id = ''000000000000000000000000'', lot_name = ''Downtown Central'',
          spot_id = Some ''000000000000000000000001'', resp_spot_number = Some ''1'',
          reason = ''Closest lot with available matching spots''\<rparr> \<and>
   find_one (parkingspot demo_store) 1 =
     Some (1, \<lparr>lot_id = ''000000000000000000000000'', spot_number = ''1'',
               vehicle_type = ''car'', is_occupied = False\<rparr>)"
proof -
  have "any_req\<lparr>req_vehicle_type := None\<rparr> = any_req" by (simp add: any_req_def)
  then show ?thesis
    using recommend_parking_empty_filter [of cfg_ok any_req demo_store] recommend_any_demo
    by (simp add: demo_store_eq find_one_def)
qed

lemma lot_spots_filtered:
  assumes "req_vehicle_type req = Some v" and "v \<noteq> []" and "s \<in> set (lot_spots req st l)"
  shows "s \<in> set (parkingspot st) \<and> vehicle_type (snd s) = v \<and> \<not> is_occupied (snd s)"
  using assms by (auto simp: lot_spots_def truthy_def Let_def)

lemma lot_spots_all_occupied:
  assumes "req_vehicle_type req = Some v" and "v \<noteq> []"
    and "\<forall>s \<in> set (parkingspot st). vehicle_type (snd s) = v \<longrightarrow> is_occupied (snd s)"
  shows "lot_spots req st l = []"
  using assms by (auto simp: lot_spots_def truthy_def Let_def filter_empty_conv)

lemma recommend_parking_Inr:
  assumes "recommend_parking cfg req st = Inr resp"
  shows "\<exists>best s0 rest. best \<in> set (parkinglot st) \<and> lot_spots req st best = s0 # rest \<and>
     resp = \<lparr>resp_lot_id = str_oid (fst best), lot_name = name (snd best),
             spot_id = Some (str_oid (fst s0)),
             resp_spot_number = Some (spot_number (snd s0)),
             reason = ''Closest lot with available matching spots''\<rparr>"
proof -
  have c: "db_configured cfg" and ne: "parkinglot st \<noteq> []"
    using assms by (auto simp: recommend_parking_def split: if_splits)
  have "\<exists>l \<in> set (parkinglot st). lot_spots req st l \<noteq> []"
  proof (rule ccontr)
    assume "\<not> (\<exists>l \<in> set (parkinglot st). lot_spots req st l \<noteq> [])"
    then have "\<forall>l \<in> set (parkinglot st). lot_spots req st l = []" by blast
    from recommend_parking_none [OF c ne this] assms show False by simp
  qed
  from recommend_parking_some [OF c this] obtain best s0 rest where
    r: "first_best req st (parkinglot st) best" "lot_spots req st best = s0 # rest"
       "recommend_parking cfg req st =
          Inr \<lparr>resp_lot_id = str_oid (fst best), lot_name = name (snd best),
               spot_id = Some (str_oid (fst s0)),
               resp_spot_number = Some (spot_number (snd s0)),
               reason = ''Closest lot with available matching spots''\<rparr>"
    by blast
  have "best \<in> set (parkinglot st)" using first_best_mem [OF r(1)] by simp
  moreover have "resp = \<lparr>resp_lot_id = str_oid (fst best), lot_name = name (snd best),
               spot_id = Some (str_oid (fst s0)),
               resp_spot_number = Some (spot_number (snd s0)),
               reason = ''Closest lot with available matching spots''\<rparr>"
    using r(3) assms by simp
  ultimately show ?thesis using r(2) by blast
qed

lemma ev_full_store_eq:
  "ev_full_store =
     demo_store\<lparr>parkingspot :=
                  update_one
                    (update_one (parkingspot demo_store) 3 (\<lambda>s. s\<lparr>is_occupied := True\<rparr>)) 7
                    (\<lambda>s. s\<lparr>is_occupied := True\<rparr>),
                booking :=
                  [(13, \<lparr>booking_lot_id = ''000000000000000000000000'',
                         booking_spot_id = ''000000000000000000000003'',
                         vehicle_plate = ''7ABC123'', user_name = None,
                         start_time = Some 0, end_time = None, status = Active\<rparr>),
                   (14, \<lparr>booking_lot_id = ''000000000000000000000000'',
                         booking_spot_id = ''000000000000000000000007'',
                         vehicle_plate = ''7ABC123'', user_name = None,
                         start_time = Some 0, end_time = None, status = Active\<rparr>)],
                next_oid := 15\<rparr>"
  by (simp add: ev_full_store_def start_booking_def cfg_ok_def start_req_def ObjectId_values
      demo_store_eq find_one_def create_booking_def str_oid_13 str_oid_values)

text \<open>
  C6. With a non-empty \<open>vehicle_type\<close> in the request, a successful answer names an
  unoccupied spot of the store whose category is the requested one. When every spot of
  that category is occupied, a configured deployment that holds lots answers 404 ``No
  suitable spots found'', whatever the other spots are.
\<close>

theorem recommend_parking_filter:
  assumes "req_vehicle_type req = Some v" and "v \<noteq> []"
  shows "(\<forall>resp. recommend_parking cfg req st = Inr resp \<longrightarrow>
            (\<exists>s \<in> set (parkingspot st).
               spot_id resp = Some (str_oid (fst s)) \<and>
               resp_spot_number resp = Some (spot_number (snd s)) \<and>
               vehicle_type (snd s) = v \<and> \<not> is_occupied (snd s))) \<and>
         (db_configured cfg \<and> parkinglot st \<noteq> [] \<and>
          (\<forall>s \<in> set (parkingspot st). vehicle_type (snd s) = v \<longrightarrow> is_occupied (snd s)) \<longrightarrow>
            recommend_parking cfg req st = Inl (HTTPException 404 ''No suitable spots found''))"
proof (intro conjI allI impI)
  fix resp
  assume "recommend_parking cfg req st = Inr resp"
  from recommend_parking_Inr [OF this] obtain best s0 rest where
    r: "lot_spots req st best = s0 # rest"
       "resp = \<lparr>resp_lot_id = str_oid (fst best), lot_name = name (snd best),
               spot_id = Some (str_oid (fst s0)),
               resp_spot_number = Some (spot_number (snd s0)),
               reason = ''Closest lot with available matching spots''\<rparr>"
    by blast
  have "s0 \<in> set (lot_spots req st best)" using r(1) by simp
  from lot_spots_filtered [OF assms this] r(2)
  show "\<exists>s \<in> set (parkingspot st).
               spot_id resp = Some (str_oid (fst s)) \<and>
               resp_spot_number resp = Some (spot_number (snd s)) \<and>
               vehicle_type (snd s) = v \<and> \<not> is_occupied (snd s)"
    by (intro bexI [of _ s0]) simp_all
next
  assume a: "db_configured cfg \<and> parkinglot st \<noteq> [] \<and>
          (\<forall>s \<in> set (parkingspot st). vehicle_type (snd s) = v \<longrightarrow> is_occupied (snd s))"
  then have "\<forall>l \<in> set (parkinglot st). lot_spots req st l = []"
    using lot_spots_all_occupied [OF assms] by blast
  then show "recommend_parking cfg req st = Inl (HTTPException 404 ''No suitable spots found'')"
    using a recommend_parking_none by blast
qed

theorem recommend_parking_filter_witness:
  "req_vehicle_type ev_req = Some ''ev'' \<and>
   recommend_parking cfg_ok ev_req demo_store =
     Inr \<lparr>resp_lot_id = ''000000000000000000000000'', lot_name = ''Downtown Central'',
          spot_id = Some ''000000000000000000000003'', resp_spot_number = Some ''3'',
          reason = ''Closest lot with available matching spots''\<rparr> \<and>
   find_one (parkingspot demo_store) 3 =
     Some (3, \<lparr>lot_id = ''000000000000000000000000'', spot_number = ''3'',
               vehicle_type = ''ev'', is_occupied = False\<rparr>) \<and>
   find_one (parkingspot ev_full_store) 1 =
     Some (1, \<lparr>lot_id = ''000000000000000000000000'', spot_number = ''1'',
               vehicle_type = ''car'', is_occupied = False\<rparr>) \<and>
   recommend_parking cfg_ok ev_req ev_full_store =
     Inl (HTTPException 404 ''No suitable spots found'')"
proof -
  have v: "req_vehicle_type ev_req = Some ''ev''" by (simp add: ev_req_def)
  have occ: "\<forall>s \<in> set (parkingspot ev_full_store).
      vehicle_type (snd s) = ''ev'' \<longrightarrow> is_occupied (snd s)"
    by (simp add: ev_full_store_eq demo_store_eq)
  have "db_configured cfg_ok \<and> parkinglot ev_full_store \<noteq> []"
    by (simp add: cfg_ok_def ev_full_store_eq demo_store_eq)
  then have "recommend_parking cfg_ok ev_req ev_full_store =
     Inl (HTTPException 404 ''No suitable spots found'')"
    using recommend_parking_filter [OF v, of cfg_ok ev_full_store] occ by simp
  then show ?thesis
    using v recommend_ev_demo by (simp add: ev_full_store_eq demo_store_eq find_one_def)
qed

section \<open>Occupancy and active bookings\<close>

lemma map_fst_update_one: "map fst (update_one ds k f) = map fst ds"
  by (induction ds) auto

lemma update_one_distinct:
  "distinct (map fst ds) \<Longrightarrow>
   update_one ds k f = map (\<lambda>d. if fst d = k then (fst d, f (snd d)) else d) ds"
proof (induction ds)
  case Nil
  then show ?case by simp
next
  case (Cons d ds)
  show ?case
  proof (cases "fst d = k")
    case True
    then have "k \<notin> fst ` set ds" using Cons.prems by simp
    then have "\<forall>x \<in> set ds. fst x \<noteq> k" by blast
    then have "map (\<lambda>d. if fst d = k then (fst d, f (snd d)) else d) ds = ds"
      by (simp add: map_idI)
    then show ?thesis using True by simp
  next
    case False
    then show ?thesis using Cons by simp
  qed
qed

lemma update_one_split:
  "find_one ds k = Some d \<Longrightarrow>
   \<exists>pre post. ds = pre @ d # post \<and> update_one ds k f = pre @ (k, f (snd d)) # post"
proof (induction ds)
  case Nil
  then show ?case by (simp add: find_one_def)
next
  case (Cons x ds)
  show ?case
  proof (cases "fst x = k")
    case True
    then have "x = d" using Cons.prems by (simp add: find_one_def)
    then have "x # ds = [] @ d # ds \<and> update_one (x # ds) k f = [] @ (k, f (snd d)) # ds"
      using True by simp
    then show ?thesis by blast
  next
    case False
    then have "find_one ds k = Some d" using Cons.prems by (simp add: find_one_def)
    from Cons.IH [OF this] obtain pre post where
      "ds = pre @ d # post" "update_one ds k f = pre @ (k, f (snd d)) # post" by blast
    then have "x # ds = (x # pre) @ d # post \<and>
        update_one (x # ds) k f = (x # pre) @ (k, f (snd d)) # post"
      using False by simp
    then show ?thesis by blast
  qed
qed

lemma distinct_fst_eq:
  assumes "distinct (map fst ds)" and "x \<in> set ds" and "y \<in> set ds" and "fst x = fst y"
  shows "x = y"
  using assms by (metis eq_key_imp_eq_value prod.collapse)

text \<open>What a successful request changes, and that a failed one changes nothing.\<close>

lemma start_booking_cases:
  "snd (start_booking cfg now req st) = st \<or>
   (\<exists>sk spot b. ObjectId (req_spot_id req) = Some sk \<and>
      find_one (parkingspot st) sk = Some spot \<and> \<not> is_occupied (snd spot) \<and>
      booking_spot_id b = req_spot_id req \<and> status b = Active \<and>
      snd (start_booking cfg now req st) =
        st\<lparr>parkingspot := update_one (parkingspot st) sk (\<lambda>s. s\<lparr>is_occupied := True\<rparr>),
           booking := booking st @ [(next_oid st, b)],
           next_oid := Suc (next_oid st)\<rparr>)"
proof (cases "db_configured cfg \<and> objectid_available cfg \<and> ObjectId (req_lot_id req) \<noteq> None \<and>
    (\<exists>sk spot. ObjectId (req_spot_id req) = Some sk \<and>
       find_one (parkingspot st) sk = Some spot \<and> \<not> is_occupied (snd spot))")
  case True
  then obtain sk spot where
    c: "db_configured cfg" "objectid_available cfg" "ObjectId (req_lot_id req) \<noteq> None" and
    s: "ObjectId (req_spot_id req) = Some sk" "find_one (parkingspot st) sk = Some spot"
       "\<not> is_occupied (snd spot)"
    by blast
  define b where "b = \<lparr>booking_lot_id = req_lot_id req, booking_spot_id = req_spot_id req,
     vehicle_plate = req_vehicle_plate req, user_name = req_user_name req,
     start_time = Some now, end_time = None, status = Active\<rparr>"
  have "fst spot = sk" using s(2) by (rule find_one_fst)
  then have "snd (start_booking cfg now req st) =
        st\<lparr>parkingspot := update_one (parkingspot st) sk (\<lambda>s. s\<lparr>is_occupied := True\<rparr>),
           booking := booking st @ [(next_oid st, b)],
           next_oid := Suc (next_oid st)\<rparr>"
    using c s by (auto simp: start_booking_def Let_def create_booking_def b_def)
  moreover have "booking_spot_id b = req_spot_id req \<and> status b = Active"
    by (simp add: b_def)
  ultimately show ?thesis using s by blast
next
  case False
  then have "snd (start_booking cfg now req st) = st"
    by (auto simp: start_booking_def Let_def split: option.splits)
  then show ?thesis by simp
qed

lemma end_booking_cases:
  "snd (end_booking cfg now0 now req st) = st \<or>
   (\<exists>bk b. find_one (booking st) bk = Some b \<and> status (snd b) = Active \<and>
      snd (end_booking cfg now0 now req st) =
        (case ObjectId (booking_spot_id (snd b)) of
           None \<Rightarrow>
             st\<lparr>booking := update_one (booking st) bk
                              (\<lambda>x. x\<lparr>status := Completed, end_time := Some now\<rparr>)\<rparr>
         | Some sk \<Rightarrow>
             st\<lparr>booking := update_one (booking st) bk
                              (\<lambda>x. x\<lparr>status := Completed, end_time := Some now\<rparr>),
                parkingspot := update_one (parkingspot st) sk
                                 (\<lambda>s. s\<lparr>is_occupied := False\<rparr>)\<rparr>))"
proof (cases "db_configured cfg \<and> objectid_available cfg \<and>
    (\<exists>bk b. ObjectId (req_booking_id req) = Some bk \<and> find_one (booking st) bk = Some b \<and>
       status (snd b) = Active)")
  case True
  then obtain bk b where
    c: "db_configured cfg" "objectid_available cfg" and
    s: "ObjectId (req_booking_id req) = Some bk" "find_one (booking st) bk = Some b"
       "status (snd b) = Active"
    by blast
  have "fst b = bk" using s(2) by (rule find_one_fst)
  then have "snd (end_booking cfg now0 now req st) =
        (case ObjectId (booking_spot_id (snd b)) of
           None \<Rightarrow>
             st\<lparr>booking := update_one (booking st) bk
                              (\<lambda>x. x\<lparr>status := Completed, end_time := Some now\<rparr>)\<rparr>
         | Some sk \<Rightarrow>
             st\<lparr>booking := update_one (booking st) bk
                              (\<lambda>x. x\<lparr>status := Completed, end_time := Some now\<rparr>),
                parkingspot := update_one (parkingspot st) sk
                                 (\<lambda>s. s\<lparr>is_occupied := False\<rparr>)\<rparr>)"
    using c s by (simp add: end_booking_def Let_def split: option.splits)
  then show ?thesis using s by blast
next
  case False
  then have "snd (end_booking cfg now0 now req st) = st"
    by (auto simp: end_booking_def Let_def split: option.splits)
  then show ?thesis by simp
qed

lemma seed_new_spots:
  assumes "length ks = length is"
  shows "map fst (map (\<lambda>(k, i). (k, seed_spot l i)) (zip ks is)) = ks"
    and "\<forall>s \<in> set (map (\<lambda>(k, i). (k, seed_spot l i)) (zip ks is)).
           \<not> is_occupied (snd s) \<and> vehicle_type (snd s) \<in> set vehicle_types"
proof -
  have "map fst (map (\<lambda>(k, i). (k, seed_spot l i)) (zip ks is)) = map fst (zip ks is)"
    by (simp add: case_prod_beta comp_def)
  then show "map fst (map (\<lambda>(k, i). (k, seed_spot l i)) (zip ks is)) = ks"
    using assms by simp
  show "\<forall>s \<in> set (map (\<lambda>(k, i). (k, seed_spot l i)) (zip ks is)).
           \<not> is_occupied (snd s) \<and> vehicle_type (snd s) \<in> set vehicle_types"
    by (auto simp: seed_spot_def seed_vtype_valid)
qed

lemma seed_demo_data_cases:
  "snd (seed_demo_data cfg st) = st \<or>
   (\<exists>lots ns. map fst ns = [Suc (next_oid st)..<Suc (next_oid st) + 12] \<and>
      (\<forall>s \<in> set ns. \<not> is_occupied (snd s) \<and> vehicle_type (snd s) \<in> set vehicle_types) \<and>
      snd (seed_demo_data cfg st) =
        st\<lparr>parkinglot := lots, parkingspot := parkingspot st @ ns,
           next_oid := next_oid st + 13\<rparr>)"
proof (cases "db_configured cfg \<and> parkinglot st = []")
  case True
  let ?ns = "map (\<lambda>(k, i). (k, seed_spot (str_oid (next_oid st)) i))
               (zip [Suc (next_oid st)..<Suc (next_oid st) + 12] [1..<13])"
  have len: "length [Suc (next_oid st)..<Suc (next_oid st) + 12] = length [1..<13::nat]"
    by simp
  have "map fst ?ns = [Suc (next_oid st)..<Suc (next_oid st) + 12]"
    using len by (rule seed_new_spots(1))
  moreover have "\<forall>s \<in> set ?ns.
      \<not> is_occupied (snd s) \<and> vehicle_type (snd s) \<in> set vehicle_types"
    using len by (rule seed_new_spots(2))
  moreover have "snd (seed_demo_data cfg st) =
        st\<lparr>parkinglot := [(next_oid st,
             \<lparr>name = ''Downtown Central'', latitude = 37.7749, longitude = - 122.4194,
              address = Some ''123 Market St, San Francisco, CA'', price_per_hour = 5,
              total_spots = 12\<rparr>)],
           parkingspot := parkingspot st @ ?ns,
           next_oid := next_oid st + 13\<rparr>"
    using True seed_demo_data_empty [of cfg st] by simp
  ultimately show ?thesis by blast
next
  case False
  then have "snd (seed_demo_data cfg st) = st"
    by (auto simp: seed_demo_data_def)
  then show ?thesis by simp
qed

lemma store_inv_seed:
  assumes "store_inv st"
  shows "store_inv (snd (seed_demo_data cfg st))"
  using seed_demo_data_cases [of cfg st]
proof
  assume "snd (seed_demo_data cfg st) = st"
  then show ?thesis using assms by simp
next
  assume "\<exists>lots ns. map fst ns = [Suc (next_oid st)..<Suc (next_oid st) + 12] \<and>
      (\<forall>s \<in> set ns. \<not> is_occupied (snd s) \<and> vehicle_type (snd s) \<in> set vehicle_types) \<and>
      snd (seed_demo_data cfg st) =
        st\<lparr>parkinglot := lots, parkingspot := parkingspot st @ ns,
           next_oid := next_oid st + 13\<rparr>"
  then obtain lots ns where
    ids: "map fst ns = [Suc (next_oid st)..<Suc (next_oid st) + 12]" and
    free: "\<forall>s \<in> set ns. \<not> is_occupied (snd s)" and
    st': "snd (seed_demo_data cfg st) =
        st\<lparr>parkinglot := lots, parkingspot := parkingspot st @ ns,
           next_oid := next_oid st + 13\<rparr>"
    by blast
  from assms have
    D: "distinct (map fst (parkingspot st))" and
    B: "\<forall>s \<in> set (parkingspot st). fst s < next_oid st" and
    C: "\<forall>b \<in> set (booking st). \<forall>k. ObjectId (booking_spot_id (snd b)) = Some k \<longrightarrow>
           k \<in> fst ` set (parkingspot st)" and
    E: "\<forall>s \<in> set (parkingspot st).
           length (active_bookings st (fst s)) = (if is_occupied (snd s) then 1 else 0)"
    unfolding store_inv_def by blast+
  have new: "\<forall>s \<in> set ns. next_oid st < fst s \<and> fst s < next_oid st + 13"
  proof
    fix s assume "s \<in> set ns"
    then have "fst s \<in> set (map fst ns)" by simp
    then show "next_oid st < fst s \<and> fst s < next_oid st + 13" unfolding ids by auto
  qed
  have a: "distinct (map fst (parkingspot st @ ns))"
    using D B new by (auto simp: ids)
  have b: "\<forall>s \<in> set (parkingspot st @ ns). fst s < next_oid st + 13"
    using B new by auto
  have c: "\<forall>b \<in> set (booking st). \<forall>k. ObjectId (booking_spot_id (snd b)) = Some k \<longrightarrow>
           k \<in> fst ` set (parkingspot st @ ns)"
    using C by auto
  have none: "active_bookings st (fst s) = []" if "s \<in> set ns" for s
  proof -
    have "\<not> active_on (fst s) x" if "x \<in> set (booking st)" for x
    proof
      assume "active_on (fst s) x"
      then have "fst s \<in> fst ` set (parkingspot st)"
        using C that by (simp add: active_on_def)
      then have "fst s < next_oid st" using B by auto
      then show False using new \<open>s \<in> set ns\<close> by auto
    qed
    then show ?thesis by (simp add: active_bookings_def filter_empty_conv)
  qed
  have e: "\<forall>s \<in> set (parkingspot st @ ns).
      length (active_bookings st (fst s)) = (if is_occupied (snd s) then 1 else 0)"
    using E none free by auto
  show ?thesis
    unfolding st' store_inv_def using a b c e by (simp add: active_bookings_def)
qed

lemma store_inv_start:
  assumes "store_inv st"
  shows "store_inv (snd (start_booking cfg now req st))"
  using start_booking_cases [of cfg now req st]
proof
  assume "snd (start_booking cfg now req st) = st"
  then show ?thesis using assms by simp
next
  assume "\<exists>sk spot b. ObjectId (req_spot_id req) = Some sk \<and>
      find_one (parkingspot st) sk = Some spot \<and> \<not> is_occupied (snd spot) \<and>
      booking_spot_id b = req_spot_id req \<and> status b = Active \<and>
      snd (start_booking cfg now req st) =
        st\<lparr>parkingspot := update_one (parkingspot st) sk (\<lambda>s. s\<lparr>is_occupied := True\<rparr>),
           booking := booking st @ [(next_oid st, b)],
           next_oid := Suc (next_oid st)\<rparr>"
  then obtain sk spot b where
    sk: "ObjectId (req_spot_id req) = Some sk" and
    spot: "find_one (parkingspot st) sk = Some spot" "\<not> is_occupied (snd spot)" and
    b: "booking_spot_id b = req_spot_id req" "status b = Active" and
    st': "snd (start_booking cfg now req st) =
        st\<lparr>parkingspot := update_one (parkingspot st) sk (\<lambda>s. s\<lparr>is_occupied := True\<rparr>),
           booking := booking st @ [(next_oid st, b)],
           next_oid := Suc (next_oid st)\<rparr>"
    by blast
  let ?g = "\<lambda>d::ParkingSpot document.
              if fst d = sk then (fst d, (snd d)\<lparr>is_occupied := True\<rparr>) else d"
  from assms have
    D: "distinct (map fst (parkingspot st))" and
    B: "\<forall>s \<in> set (parkingspot st). fst s < next_oid st" and
    C: "\<forall>b \<in> set (booking st). \<forall>k. ObjectId (booking_spot_id (snd b)) = Some k \<longrightarrow>
           k \<in> fst ` set (parkingspot st)" and
    E: "\<forall>s \<in> set (parkingspot st).
           length (active_bookings st (fst s)) = (if is_occupied (snd s) then 1 else 0)"
    unfolding store_inv_def by blast+
  have mem: "spot \<in> set (parkingspot st)" "fst spot = sk"
    using spot(1) by (simp_all add: find_one_mem find_one_fst)
  have upd: "update_one (parkingspot st) sk (\<lambda>s. s\<lparr>is_occupied := True\<rparr>) =
             map ?g (parkingspot st)"
    using D by (rule update_one_distinct)
  have mf: "map fst (map ?g (parkingspot st)) = map fst (parkingspot st)"
    using map_fst_update_one [of "parkingspot st" sk "\<lambda>s. s\<lparr>is_occupied := True\<rparr>"]
    unfolding upd .
  have ids: "fst ` set (map ?g (parkingspot st)) = fst ` set (parkingspot st)"
    using arg_cong [OF mf, of set] by (simp only: set_map)
  have act: "active_on k (next_oid st, b) = (k = sk)" for k
    using sk b by (auto simp: active_on_def)
  have a: "distinct (map fst (map ?g (parkingspot st)))"
    using D unfolding mf .
  have b': "\<forall>s \<in> set (map ?g (parkingspot st)). fst s < Suc (next_oid st)"
    using B by auto
  have "sk \<in> fst ` set (parkingspot st)"
    using mem by (metis imageI)
  then have c: "\<forall>x \<in> set (booking st @ [(next_oid st, b)]).
      \<forall>k. ObjectId (booking_spot_id (snd x)) = Some k \<longrightarrow>
           k \<in> fst ` set (map ?g (parkingspot st))"
    unfolding ids using C sk b(1) by auto
  have e: "\<forall>s \<in> set (map ?g (parkingspot st)).
      length (filter (active_on (fst s)) (booking st @ [(next_oid st, b)])) =
        (if is_occupied (snd s) then 1 else 0)"
  proof
    fix s' assume "s' \<in> set (map ?g (parkingspot st))"
    then have "s' \<in> ?g ` set (parkingspot st)" by (simp only: set_map)
    then obtain s where s: "s \<in> set (parkingspot st)" "s' = ?g s" by blast
    show "length (filter (active_on (fst s')) (booking st @ [(next_oid st, b)])) =
        (if is_occupied (snd s') then 1 else 0)"
    proof (cases "fst s = sk")
      case True
      then have "s = spot" using D s(1) mem by (simp add: distinct_fst_eq)
      then have "length (active_bookings st sk) = 0" using E mem spot(2) by auto
      then show ?thesis using True s(2) by (simp add: act active_bookings_def)
    next
      case False
      then show ?thesis using E s by (simp add: act active_bookings_def)
    qed
  qed
  show ?thesis
    unfolding st' store_inv_def upd using a b' c e by (simp add: active_bookings_def)
qed

lemma store_inv_end:
  assumes "store_inv st"
  shows "store_inv (snd (end_booking cfg now0 now req st))"
  using end_booking_cases [of cfg now0 now req st]
proof
  assume "snd (end_booking cfg now0 now req st) = st"
  then show ?thesis using assms by simp
next
  let ?done = "\<lambda>x::Booking. x\<lparr>status := Completed, end_time := Some now\<rparr>"
  assume "\<exists>bk b. find_one (booking st) bk = Some b \<and> status (snd b) = Active \<and>
      snd (end_booking cfg now0 now req st) =
        (case ObjectId (booking_spot_id (snd b)) of
           None \<Rightarrow> st\<lparr>booking := update_one (booking st) bk ?done\<rparr>
         | Some sk \<Rightarrow>
             st\<lparr>booking := update_one (booking st) bk ?done,
                parkingspot := update_one (parkingspot st) sk
                                 (\<lambda>s. s\<lparr>is_occupied := False\<rparr>)\<rparr>)"
  then obtain bk b where
    b: "find_one (booking st) bk = Some b" "status (snd b) = Active" and
    st': "snd (end_booking cfg now0 now req st) =
        (case ObjectId (booking_spot_id (snd b)) of
           None \<Rightarrow> st\<lparr>booking := update_one (booking st) bk ?done\<rparr>
         | Some sk \<Rightarrow>
             st\<lparr>booking := update_one (booking st) bk ?done,
                parkingspot := update_one (parkingspot st) sk
                                 (\<lambda>s. s\<lparr>is_occupied := False\<rparr>)\<rparr>)"
    by blast
  from update_one_split [OF b(1), of ?done] obtain pre post where
    old: "booking st = pre @ b # post" and
    new: "update_one (booking st) bk ?done = pre @ (bk, ?done (snd b)) # post"
    by blast
  from assms have
    D: "distinct (map fst (parkingspot st))" and
    B: "\<forall>s \<in> set (parkingspot st). fst s < next_oid st" and
    C: "\<forall>b \<in> set (booking st). \<forall>k. ObjectId (booking_spot_id (snd b)) = Some k \<longrightarrow>
           k \<in> fst ` set (parkingspot st)" and
    E: "\<forall>s \<in> set (parkingspot st).
           length (active_bookings st (fst s)) = (if is_occupied (snd s) then 1 else 0)"
    unfolding store_inv_def by blast+
  have closed: "\<not> active_on k (bk, ?done (snd b))" for k
    by (simp add: active_on_def)
  have was: "active_on k b = (ObjectId (booking_spot_id (snd b)) = Some k)" for k
    using b(2) by (simp add: active_on_def)
  have cnt: "length (filter (active_on k) (booking st)) =
             length (filter (active_on k) (update_one (booking st) bk ?done)) +
             (if ObjectId (booking_spot_id (snd b)) = Some k then 1 else 0)" for k
    unfolding new by (simp add: old closed was)
  have refs: "\<forall>x \<in> set (update_one (booking st) bk ?done).
      \<forall>k. ObjectId (booking_spot_id (snd x)) = Some k \<longrightarrow> k \<in> fst ` set (parkingspot st)"
    unfolding new using C by (auto simp: old)
  show ?thesis
  proof (cases "ObjectId (booking_spot_id (snd b))")
    case None
    have e: "\<forall>s \<in> set (parkingspot st).
      length (filter (active_on (fst s)) (update_one (booking st) bk ?done)) =
        (if is_occupied (snd s) then 1 else 0)"
      using E cnt by (simp add: None active_bookings_def)
    show ?thesis
      unfolding st' store_inv_def using D B refs e by (simp add: None active_bookings_def)
  next
    case (Some sk)
    let ?h = "\<lambda>d::ParkingSpot document.
                if fst d = sk then (fst d, (snd d)\<lparr>is_occupied := False\<rparr>) else d"
    have upd: "update_one (parkingspot st) sk (\<lambda>s. s\<lparr>is_occupied := False\<rparr>) =
               map ?h (parkingspot st)"
      using D by (rule update_one_distinct)
    have mf: "map fst (map ?h (parkingspot st)) = map fst (parkingspot st)"
      using map_fst_update_one [of "parkingspot st" sk "\<lambda>s. s\<lparr>is_occupied := False\<rparr>"]
      unfolding upd .
    have ids: "fst ` set (map ?h (parkingspot st)) = fst ` set (parkingspot st)"
      using arg_cong [OF mf, of set] by (simp only: set_map)
    have a: "distinct (map fst (map ?h (parkingspot st)))"
      using D unfolding mf .
    have b': "\<forall>s \<in> set (map ?h (parkingspot st)). fst s < next_oid st"
      using B by auto
    have c: "\<forall>x \<in> set (update_one (booking st) bk ?done).
      \<forall>k. ObjectId (booking_spot_id (snd x)) = Some k \<longrightarrow>
           k \<in> fst ` set (map ?h (parkingspot st))"
      unfolding ids using refs .
    have e: "\<forall>s \<in> set (map ?h (parkingspot st)).
      length (filter (active_on (fst s)) (update_one (booking st) bk ?done)) =
        (if is_occupied (snd s) then 1 else 0)"
    proof
      fix s' assume "s' \<in> set (map ?h (parkingspot st))"
      then have "s' \<in> ?h ` set (parkingspot st)" by (simp only: set_map)
      then obtain s where s: "s \<in> set (parkingspot st)" "s' = ?h s" by blast
      have old_cnt: "length (filter (active_on (fst s)) (booking st)) =
          (if is_occupied (snd s) then 1 else 0)"
        using E s(1) by (simp add: active_bookings_def)
      show "length (filter (active_on (fst s')) (update_one (booking st) bk ?done)) =
        (if is_occupied (snd s') then 1 else 0)"
      proof (cases "fst s = sk")
        case True
        then have "length (filter (active_on sk) (booking st)) =
            length (filter (active_on sk) (update_one (booking st) bk ?done)) + 1"
          using cnt [of sk] Some by simp
        then have "length (filter (active_on sk) (update_one (booking st) bk ?done)) = 0"
          using old_cnt True by (simp split: if_splits)
        then show ?thesis using True s(2) by simp
      next
        case False
        then have "length (filter (active_on (fst s)) (booking st)) =
            length (filter (active_on (fst s)) (update_one (booking st) bk ?done))"
          using cnt [of "fst s"] Some by simp
        then show ?thesis using old_cnt False s(2) by simp
      qed
    qed
    show ?thesis
      unfolding st' store_inv_def using a b' c e
      by (simp add: Some upd active_bookings_def)
  qed
qed

lemma reachable_store_inv: "reachable cfg st \<Longrightarrow> store_inv st"
proof (induction rule: reachable.induct)
  case reachable_empty
  then show ?case by (simp add: store_inv_def empty_store_def active_bookings_def)
next
  case (reachable_seed st)
  then show ?case by (simp add: store_inv_seed)
next
  case (reachable_start st now req)
  then show ?case by (simp add: store_inv_start)
next
  case (reachable_end st now0 now req)
  then show ?case by (simp add: store_inv_end)
qed

lemma reachable_demo_store: "reachable cfg_ok demo_store"
  unfolding demo_store_def by (intro reachable.intros)

lemma reachable_booked_store: "reachable cfg_ok booked_store"
  unfolding booked_store_def by (intro reachable.intros reachable_demo_store)

text \<open>
  C5. In every state reached from the empty store by seeding, starting and ending bookings,
  a spot is occupied exactly when one active booking references it, and no identifier is
  referenced by two active bookings.
\<close>

theorem occupied_iff_one_active_booking:
  assumes "reachable cfg st"
  shows "(\<forall>s \<in> set (parkingspot st).
            is_occupied (snd s) \<longleftrightarrow> length (active_bookings st (fst s)) = 1) \<and>
         (\<forall>k. length (active_bookings st k) \<le> 1)"
proof -
  from reachable_store_inv [OF assms] have
    C: "\<forall>b \<in> set (booking st). \<forall>k. ObjectId (booking_spot_id (snd b)) = Some k \<longrightarrow>
           k \<in> fst ` set (parkingspot st)" and
    E: "\<forall>s \<in> set (parkingspot st).
           length (active_bookings st (fst s)) = (if is_occupied (snd s) then 1 else 0)"
    unfolding store_inv_def by blast+
  have "length (active_bookings st k) \<le> 1" for k
  proof (cases "k \<in> fst ` set (parkingspot st)")
    case True
    then obtain s where "s \<in> set (parkingspot st)" "k = fst s" by blast
    then show ?thesis using E by auto
  next
    case False
    then have "\<forall>x \<in> set (booking st). \<not> active_on k x"
      using C by (auto simp: active_on_def)
    then have "active_bookings st k = []"
      by (simp add: active_bookings_def filter_empty_conv)
    then show ?thesis by simp
  qed
  moreover have "\<forall>s \<in> set (parkingspot st).
            is_occupied (snd s) \<longleftrightarrow> length (active_bookings st (fst s)) = 1"
    using E by auto
  ultimately show ?thesis by blast
qed

theorem occupied_iff_one_active_booking_witness:
  "reachable cfg_ok booked_store \<and>
   find_one (parkingspot booked_store) 5 =
     Some (5, \<lparr>lot_id = ''000000000000000000000000'', spot_number = ''5'',
               vehicle_type = ''accessible'', is_occupied = True\<rparr>) \<and>
   length (active_bookings booked_store 5) = 1 \<and>
   find_one (parkingspot booked_store) 1 =
     Some (1, \<lparr>lot_id = ''000000000000000000000000'', spot_number = ''1'',
               vehicle_type = ''car'', is_occupied = False\<rparr>) \<and>
   length (active_bookings booked_store 1) = 0"
proof -
  have m: "(5, \<lparr>lot_id = ''000000000000000000000000'', spot_number = ''5'',
               vehicle_type = ''accessible'', is_occupied = True\<rparr>) \<in> set (parkingspot booked_store)"
    using find_booked_spot by (rule find_one_mem)
  have f1: "find_one (parkingspot booked_store) 1 =
     Some (1, \<lparr>lot_id = ''000000000000000000000000'', spot_number = ''1'',
               vehicle_type = ''car'', is_occupied = False\<rparr>)"
    by (simp add: booked_store_eq demo_store_eq find_one_def)
  have m1: "(1, \<lparr>lot_id = ''000000000000000000000000'', spot_number = ''1'',
               vehicle_type = ''car'', is_occupied = False\<rparr>) \<in> set (parkingspot booked_store)"
    using f1 by (rule find_one_mem)
  from occupied_iff_one_active_booking [OF reachable_booked_store] m m1
  have "length (active_bookings booked_store 5) = 1"
    "length (active_bookings booked_store 1) \<noteq> 1" "length (active_bookings booked_store 1) \<le> 1"
    by fastforce+
  then have "length (active_bookings booked_store 5) = 1 \<and>
      length (active_bookings booked_store 1) = 0"
    by linarith
  then show ?thesis using reachable_booked_store find_booked_spot f1 by blast
qed

section \<open>The categories of the spots\<close>

lemma update_one_mem:
  "x \<in> set (update_one ds k f) \<Longrightarrow> x \<in> set ds \<or> (\<exists>d \<in> set ds. x = (fst d, f (snd d)))"
  by (induction ds) (auto split: if_splits)

lemma update_occupied_vehicle_type:
  assumes "\<forall>s \<in> set ds. vehicle_type (snd s) \<in> set vehicle_types"
  shows "\<forall>s \<in> set (update_one ds k (\<lambda>s. s\<lparr>is_occupied := v\<rparr>)).
           vehicle_type (snd s) \<in> set vehicle_types"
proof
  fix x assume "x \<in> set (update_one ds k (\<lambda>s. s\<lparr>is_occupied := v\<rparr>))"
  from update_one_mem [OF this] show "vehicle_type (snd x) \<in> set vehicle_types"
    using assms by auto
qed

lemma reachable_vehicle_types:
  "reachable cfg st \<Longrightarrow> \<forall>s \<in> set (parkingspot st). vehicle_type (snd s) \<in> set vehicle_types"
proof (induction rule: reachable.induct)
  case reachable_empty
  then show ?case by (simp add: empty_store_def)
next
  case (reachable_seed st)
  from seed_demo_data_cases [of cfg st] show ?case
  proof
    assume "snd (seed_demo_data cfg st) = st"
    then show ?thesis using reachable_seed.IH by simp
  next
    assume "\<exists>lots ns. map fst ns = [Suc (next_oid st)..<Suc (next_oid st) + 12] \<and>
      (\<forall>s \<in> set ns. \<not> is_occupied (snd s) \<and> vehicle_type (snd s) \<in> set vehicle_types) \<and>
      snd (seed_demo_data cfg st) =
        st\<lparr>parkinglot := lots, parkingspot := parkingspot st @ ns,
           next_oid := next_oid st + 13\<rparr>"
    then obtain lots ns where
      "\<forall>s \<in> set ns. vehicle_type (snd s) \<in> set vehicle_types"
      "snd (seed_demo_data cfg st) =
        st\<lparr>parkinglot := lots, parkingspot := parkingspot st @ ns,
           next_oid := next_oid st + 13\<rparr>"
      by blast
    then show ?thesis using reachable_seed.IH by auto
  qed
next
  case (reachable_start st now req)
  from start_booking_cases [of cfg now req st] show ?case
  proof
    assume "snd (start_booking cfg now req st) = st"
    then show ?thesis using reachable_start.IH by simp
  next
    assume "\<exists>sk spot b. ObjectId (req_spot_id req) = Some sk \<and>
      find_one (parkingspot st) sk = Some spot \<and> \<not> is_occupied (snd spot) \<and>
      booking_spot_id b = req_spot_id req \<and> status b = Active \<and>
      snd (start_booking cfg now req st) =
        st\<lparr>parkingspot := update_one (parkingspot st) sk (\<lambda>s. s\<lparr>is_occupied := True\<rparr>),
           booking := booking st @ [(next_oid st, b)],
           next_oid := Suc (next_oid st)\<rparr>"
    then obtain sk b where
      "snd (start_booking cfg now req st) =
        st\<lparr>parkingspot := update_one (parkingspot st) sk (\<lambda>s. s\<lparr>is_occupied := True\<rparr>),
           booking := booking st @ [(next_oid st, b)],
           next_oid := Suc (next_oid st)\<rparr>"
      by blast
    then show ?thesis
      using update_occupied_vehicle_type [OF reachable_start.IH, of sk True] by simp
  qed
next
  case (reachable_end st now0 now req)
  from end_booking_cases [of cfg now0 now req st] show ?case
  proof
    assume "snd (end_booking cfg now0 now req st) = st"
    then show ?thesis using reachable_end.IH by simp
  next
    assume "\<exists>bk b. find_one (booking st) bk = Some b \<and> status (snd b) = Active \<and>
      snd (end_booking cfg now0 now req st) =
        (case ObjectId (booking_spot_id (snd b)) of
           None \<Rightarrow>
             st\<lparr>booking := update_one (booking st) bk
                              (\<lambda>x. x\<lparr>status := Completed, end_time := Some now\<rparr>)\<rparr>
         | Some sk \<Rightarrow>
             st\<lparr>booking := update_one (booking st) bk
                              (\<lambda>x. x\<lparr>status := Completed, end_time := Some now\<rparr>),
                parkingspot := update_one (parkingspot st) sk
                                 (\<lambda>s. s\<lparr>is_occupied := False\<rparr>)\<rparr>)"
    then obtain bk b where "find_one (booking st) bk = Some b" and
      e: "snd (end_booking cfg now0 now req st) =
        (case ObjectId (booking_spot_id (snd b)) of
           None \<Rightarrow>
             st\<lparr>booking := update_one (booking st) bk
                              (\<lambda>x. x\<lparr>status := Completed, end_time := Some now\<rparr>)\<rparr>
         | Some sk \<Rightarrow>
             st\<lparr>booking := update_one (booking st) bk
                              (\<lambda>x. x\<lparr>status := Completed, end_time := Some now\<rparr>),
                parkingspot := update_one (parkingspot st) sk
                                 (\<lambda>s. s\<lparr>is_occupied := False\<rparr>)\<rparr>)"
      by blast
    show ?thesis
    proof (cases "ObjectId (booking_spot_id (snd b))")
      case None
      then show ?thesis using e reachable_end.IH by simp
    next
      case (Some sk)
      then show ?thesis
        using e update_occupied_vehicle_type [OF reachable_end.IH, of sk False] by simp
    qed
  qed
qed

text \<open>
  C9. The category of a spot is one of \<open>car\<close>, \<open>motorcycle\<close>, \<open>ev\<close> and \<open>accessible\<close>:
  the constructor of \<open>ParkingSpot\<close> accepts exactly these four strings, and every spot of
  every reachable store carries one of them.
\<close>

theorem spot_vehicle_types:
  assumes "reachable cfg st"
  shows "(\<forall>s \<in> set (parkingspot st).
            vehicle_type (snd s) \<in> {''car'', ''motorcycle'', ''ev'', ''accessible''}) \<and>
         (\<forall>l n v occ. (\<exists>s. mk_ParkingSpot l n v occ = Inr s \<and> vehicle_type s = v) \<longleftrightarrow>
            v \<in> {''car'', ''motorcycle'', ''ev'', ''accessible''})"
proof -
  have "\<forall>s \<in> set (parkingspot st).
            vehicle_type (snd s) \<in> {''car'', ''motorcycle'', ''ev'', ''accessible''}"
    using reachable_vehicle_types [OF assms] by (simp add: vehicle_types_def)
  moreover have "(\<exists>s. mk_ParkingSpot l n v occ = Inr s \<and> vehicle_type s = v) \<longleftrightarrow>
            v \<in> {''car'', ''motorcycle'', ''ev'', ''accessible''}" for l n v occ
    by (simp add: mk_ParkingSpot_def vehicle_types_def)
  ultimately show ?thesis by blast
qed

theorem spot_vehicle_types_witness:
  "reachable cfg_ok demo_store \<and>
   find_one (parkingspot demo_store) 3 =
     Some (3, \<lparr>lot_id = ''000000000000000000000000'', spot_number = ''3'',
               vehicle_type = ''ev'', is_occupied = False\<rparr>) \<and>
   ''ev'' \<in> {''car'', ''motorcycle'', ''ev'', ''accessible''} \<and>
   mk_ParkingSpot ''000000000000000000000000'' ''13'' ''truck'' False = Inl ValidationError"
  using spot_vehicle_types [OF reachable_demo_store] reachable_demo_store
  by (simp add: demo_store_eq find_one_def mk_ParkingSpot_def vehicle_types_def)

theorem seeded_spot_is_car:
  "reachable cfg_ok demo_store \<and>
   find_one (parkingspot demo_store) 1 =
     Some (1, \<lparr>lot_id = ''000000000000000000000000'', spot_number = ''1'',
               vehicle_type = ''car'', is_occupied = False\<rparr>) \<and>
   ''car'' \<notin> {''standard'', ''motorcycle'', ''electric'', ''accessible''}"
  using reachable_demo_store by (simp add: demo_store_eq find_one_def)

end
